theory Spec2Isabelle
  imports Complex_Main "HOL-Library.Word" "HOL-Library.Multiset"
begin

section \<open>JavaScript values\<close>

text \<open>
  The program is TypeScript running on JavaScript values. A string is a sequence of
  UTF-16 code units: \<open>length\<close>, \<open>slice\<close> and \<open>===\<close> all work on code units, so a
  string is a list of 16-bit words and \<open>s.slice(0, n)\<close> is \<open>take n s\<close>.
  \<open>lit\<close> embeds an ASCII literal of the source.
\<close>

type_synonym jschar = "16 word"
type_synonym jsstring = "jschar list"

definition lit :: "string \<Rightarrow> jsstring" where
  "lit s = map of_char s"

text \<open>
  The value a log line parses to, or a property read yields. A number is represented by
  its canonical rendering \<open>String(n)\<close>: the program only tests numbers for truthiness,
  renders them, and uses them as \<open>Map\<close> keys, and two numbers are the same key exactly when
  they render alike (\<open>+0\<close> and \<open>-0\<close> both render as \<open>0\<close>). An object is the list of its
  own properties, the binding that a read finds first.
\<close>

datatype jsval =
    JUndefined
  | JNull
  | JBool bool
  | JNum jsstring
  | JStr jsstring
  | JArr "jsval list"
  | JObj "(jsstring \<times> jsval) list"

datatype js_error = TypeError | SyntaxError | Error jsstring

text \<open>Truthiness, as tested by \<open>if (x)\<close>, \<open>!x\<close> and \<open>x || y\<close>.\<close>

fun truthy :: "jsval \<Rightarrow> bool" where
  "truthy JUndefined = False"
| "truthy JNull = False"
| "truthy (JBool b) = b"
| "truthy (JNum r) = (r \<noteq> lit ''0'' \<and> r \<noteq> lit ''NaN'')"
| "truthy (JStr s) = (s \<noteq> [])"
| "truthy (JArr xs) = True"
| "truthy (JObj kvs) = True"

definition js_or :: "jsval \<Rightarrow> jsval \<Rightarrow> jsval" where
  "js_or a b = (if truthy a then a else b)"

text \<open>
  The property read \<open>v.k\<close>, for the property names this program reads (\<open>type\<close>,
  \<open>message\<close>, \<open>role\<close>, \<open>content\<close>, \<open>text\<close>, \<open>name\<close>, \<open>id\<close>, ...), none of
  which is a built-in property of a string, number, boolean or array: on \<open>null\<close> and
  \<open>undefined\<close> the read throws a TypeError, on an object it finds the own property or
  \<open>undefined\<close>, on anything else it is \<open>undefined\<close>.
\<close>

fun get_prop :: "jsval \<Rightarrow> jsstring \<Rightarrow> js_error + jsval" where
  "get_prop JUndefined k = Inl TypeError"
| "get_prop JNull k = Inl TypeError"
| "get_prop (JObj kvs) k = Inr (case map_of kvs k of Some v \<Rightarrow> v | None \<Rightarrow> JUndefined)"
| "get_prop v k = Inr JUndefined"

text \<open>
  A computation that may throw returns \<open>js_error + 'a\<close>; \<open>bindE\<close> sequences two of them,
  the first exception ending the run.
\<close>

definition bindE :: "js_error + 'a \<Rightarrow> ('a \<Rightarrow> js_error + 'b) \<Rightarrow> js_error + 'b" where
  "bindE r f = (case r of Inl e \<Rightarrow> Inl e | Inr x \<Rightarrow> f x)"

fun mapE :: "('a \<Rightarrow> js_error + 'b) \<Rightarrow> 'a list \<Rightarrow> js_error + 'b list" where
  "mapE f [] = Inr []"
| "mapE f (x # xs) = bindE (f x) (\<lambda>y. bindE (mapE f xs) (\<lambda>ys. Inr (y # ys)))"

fun filterE :: "('a \<Rightarrow> js_error + bool) \<Rightarrow> 'a list \<Rightarrow> js_error + 'a list" where
  "filterE p [] = Inr []"
| "filterE p (x # xs) =
     bindE (p x) (\<lambda>b. bindE (filterE p xs) (\<lambda>ys. Inr (if b then x # ys else ys)))"

fun foldE :: "('s \<Rightarrow> 'a \<Rightarrow> js_error + 's) \<Rightarrow> 's \<Rightarrow> 'a list \<Rightarrow> js_error + 's" where
  "foldE f s [] = Inr s"
| "foldE f s (x # xs) = bindE (f s x) (\<lambda>s'. foldE f s' xs)"

text \<open>\<open>parts.join(sep)\<close> on strings.\<close>

fun js_join :: "jsstring \<Rightarrow> jsstring list \<Rightarrow> jsstring" where
  "js_join sep [] = []"
| "js_join sep [x] = x"
| "js_join sep (x # y # ys) = x @ sep @ js_join sep (y # ys)"

text \<open>
  The conversion of a value to a string, which \<open>String(v)\<close>, a template literal
  \<open>`${v}`\<close>, \<open>v + " "\<close> and \<open>join\<close> all apply. A primitive has its rendering. An array
  is converted by its \<open>toString\<close>, which is \<open>join(",")\<close>. An object is converted by the
  method found under \<open>toString\<close>: an object of a parsed log inherits the one that gives
  \<open>[object Object]\<close>, unless it has a property of its own with that name, whose value
  (a parsed value, never a function) cannot be called; then \<open>valueOf\<close> is tried, which
  gives no primitive either, and the conversion throws a TypeError.

  \<open>elementStrings\<close> gives what \<open>join\<close> puts between the separators: the empty string
  for \<open>null\<close> and \<open>undefined\<close>, the conversion of every other element, from left to
  right.
\<close>

fun ToString :: "jsval \<Rightarrow> js_error + jsstring"
  and elementStrings :: "jsval list \<Rightarrow> js_error + jsstring list" where
  "ToString JUndefined = Inr (lit ''undefined'')"
| "ToString JNull = Inr (lit ''null'')"
| "ToString (JBool b) = Inr (if b then lit ''true'' else lit ''false'')"
| "ToString (JNum r) = Inr r"
| "ToString (JStr s) = Inr s"
| "ToString (JArr xs) = bindE (elementStrings xs) (\<lambda>parts. Inr (js_join (lit '','') parts))"
| "ToString (JObj kvs) =
     (if lit ''toString'' \<in> set (map fst kvs) then Inl TypeError
      else Inr (lit ''[object Object]''))"
| "elementStrings [] = Inr []"
| "elementStrings (x # xs) =
     bindE (case x of JUndefined \<Rightarrow> Inr [] | JNull \<Rightarrow> Inr [] | _ \<Rightarrow> ToString x) (\<lambda>s.
     bindE (elementStrings xs) (\<lambda>rest. Inr (s # rest)))"

text \<open>\<open>xs.join(sep)\<close> on an array of values.\<close>

definition Array_join :: "jsstring \<Rightarrow> jsval list \<Rightarrow> js_error + jsstring" where
  "Array_join sep xs = bindE (elementStrings xs) (\<lambda>parts. Inr (js_join sep parts))"

text \<open>
  \<open>[...new Set(xs)]\<close>: the elements in first-seen order, without repetitions. A \<open>Set\<close>
  compares primitives by value and arrays and objects by reference; the arrays and
  objects of a parsed log are pairwise distinct references.
\<close>

fun same_value_zero :: "jsval \<Rightarrow> jsval \<Rightarrow> bool" where
  "same_value_zero (JArr xs) b = False"
| "same_value_zero (JObj kvs) b = False"
| "same_value_zero a b = (a = b)"

fun Set_values :: "jsval list \<Rightarrow> jsval list \<Rightarrow> jsval list" where
  "Set_values seen [] = seen"
| "Set_values seen (x # xs) =
     (if list_ex (\<lambda>y. same_value_zero y x) seen then Set_values seen xs
      else Set_values (seen @ [x]) xs)"

section \<open>The embedding pipeline: messages and chunks\<close>

definition CHUNK_SIZE :: nat where
  "CHUNK_SIZE = 5"

definition MAX_CHUNK_TEXT :: nat where
  "MAX_CHUNK_TEXT = 3000"

text \<open>
  \<open>interface ParsedMessage\<close> of the embedder. The parser stores \<open>msgData.role\<close>,
  \<open>entry.timestamp || ""\<close> and \<open>item.name || ""\<close> as they come out of the JSON, so these
  fields hold arbitrary values; \<open>content\<close> is always a string.
\<close>

record ParsedMessage =
  role :: jsval
  content :: jsstring
  timestamp :: jsval
  toolNames :: "jsval list"

record Chunk =
  chunkIndex :: nat
  messages :: "ParsedMessage list"
  chunkText :: jsstring
  startTime :: jsval
  endTime :: jsval
  toolsUsed :: "jsval list"

subsection \<open>formatChunkText\<close>

text \<open>The callback of \<open>messages.map\<close>. \<open>m.toolNames.join(", ")\<close> throws when a tool
  name has no conversion to a string.\<close>

definition formatMessage :: "ParsedMessage \<Rightarrow> js_error + jsstring" where
  "formatMessage m =
     (let prefix = (if role m = JStr (lit ''user'') then lit ''User:'' else lit ''Assistant:'')
      in bindE (if length (toolNames m) > 0
                then bindE (Array_join (lit '', '') (toolNames m)) (\<lambda>joined.
                       Inr (lit '' [Tools: '' @ joined @ lit '']''))
                else Inr []) (\<lambda>tools.
           Inr (prefix @ lit '' '' @ take 600 (content m) @ tools)))"

definition formatChunkText :: "ParsedMessage list \<Rightarrow> js_error + jsstring" where
  "formatChunkText ms =
     bindE (mapE formatMessage ms) (\<lambda>rendered.
       Inr (take MAX_CHUNK_TEXT (js_join (lit [CHR 0x0A]) rendered)))"

subsection \<open>chunkSession\<close>

text \<open>The first loop: \<open>turns\<close> and \<open>currentTurn\<close> are the loop's two variables.\<close>

fun groupLoop ::
  "ParsedMessage list list \<Rightarrow> ParsedMessage list \<Rightarrow> ParsedMessage list
     \<Rightarrow> ParsedMessage list list \<times> ParsedMessage list" where
  "groupLoop turns currentTurn [] = (turns, currentTurn)"
| "groupLoop turns currentTurn (msg # rest) =
     (if role msg = JStr (lit ''user'') \<and> length currentTurn > 0
      then groupLoop (turns @ [currentTurn]) [msg] rest
      else groupLoop turns (currentTurn @ [msg]) rest)"

definition groupTurns :: "ParsedMessage list \<Rightarrow> ParsedMessage list list" where
  "groupTurns msgs =
     (case groupLoop [] [] msgs of
        (turns, currentTurn) \<Rightarrow>
          if length currentTurn > 0 then turns @ [currentTurn] else turns)"

text \<open>The object literal that both branches of \<open>chunkSession\<close> build from the index and
  the flattened group; \<open>formatChunkText\<close> may throw while it is built.
  \<open>xs[0]?.timestamp || ""\<close> is \<open>""\<close> on an empty list.\<close>

definition makeChunk :: "nat \<Rightarrow> ParsedMessage list \<Rightarrow> js_error + Chunk" where
  "makeChunk idx allMessages =
     bindE (formatChunkText allMessages) (\<lambda>formatted.
       Inr \<lparr> chunkIndex = idx,
             messages = allMessages,
             chunkText = formatted,
             startTime = (case allMessages of [] \<Rightarrow> JStr [] | m # _ \<Rightarrow> js_or (timestamp m) (JStr [])),
             endTime = (if allMessages = [] then JStr []
                        else js_or (timestamp (last allMessages)) (JStr [])),
             toolsUsed = Set_values [] (concat (map toolNames allMessages)) \<rparr>)"

function chunkLoop :: "ParsedMessage list list \<Rightarrow> nat \<Rightarrow> Chunk list \<Rightarrow> js_error + Chunk list" where
  "chunkLoop turns i chunks =
     (if i < length turns
      then case makeChunk (length chunks) (concat (take CHUNK_SIZE (drop i turns))) of
             Inl e \<Rightarrow> Inl e
           | Inr chunk \<Rightarrow> chunkLoop turns (i + CHUNK_SIZE) (chunks @ [chunk])
      else Inr chunks)"
  by pat_completeness auto
termination
  by (relation "measure (\<lambda>(turns, i, chunks). length turns - i)") (auto simp: CHUNK_SIZE_def)

declare chunkLoop.simps [simp del]

definition chunkSession :: "ParsedMessage list \<Rightarrow> js_error + Chunk list" where
  "chunkSession msgs =
     (let turns = groupTurns msgs
      in if length turns \<le> CHUNK_SIZE
         then bindE (makeChunk 0 (concat turns)) (\<lambda>chunk. Inr [chunk])
         else chunkLoop turns 0 [])"

subsection \<open>Well-formed turn lists and sample messages\<close>

text \<open>A list of turns is well formed when no turn is empty, no turn has a user message
  after its first message, and every turn but the first starts with a user message.\<close>

definition turnsOk :: "ParsedMessage list list \<Rightarrow> bool" where
  "turnsOk ts \<longleftrightarrow>
     (\<forall>t \<in> set ts. t \<noteq> [] \<and> (\<forall>m \<in> set (tl t). role m \<noteq> JStr (lit ''user''))) \<and>
     (\<forall>t \<in> set (tl ts). role (hd t) = JStr (lit ''user''))"

definition userMsg :: ParsedMessage where
  "userMsg = \<lparr> role = JStr (lit ''user''), content = lit ''list the files'',
               timestamp = JStr (lit ''2026-01-01T10:00:00Z''), toolNames = [] \<rparr>"

definition assistantMsg :: ParsedMessage where
  "assistantMsg = \<lparr> role = JStr (lit ''assistant''), content = lit ''done'',
               timestamp = JStr (lit ''2026-01-01T10:00:05Z''), toolNames = [JStr (lit ''Bash'')] \<rparr>"

text \<open>
  The words of the specification for the text of a chunk: strings \<open>joined\<close> with a
  separator between each two, and a message \<open>rendered\<close> as its role prefix, the first
  600 characters of its content and, when it has tool names, the names joined with a comma
  in brackets.
\<close>

definition spec_joined :: "jsstring \<Rightarrow> jsstring list \<Rightarrow> jsstring" where
  "spec_joined sep xs = (case xs of [] \<Rightarrow> [] | x # rest \<Rightarrow> x @ concat (map (\<lambda>y. sep @ y) rest))"

definition spec_rendering :: "ParsedMessage \<Rightarrow> jsstring list \<Rightarrow> jsstring" where
  "spec_rendering m names =
     (if role m = JStr (lit ''user'') then lit ''User:'' else lit ''Assistant:'')
     @ lit '' '' @ take 600 (content m)
     @ (if names = [] then [] else lit '' [Tools: '' @ spec_joined (lit '', '') names @ lit '']'')"

definition toolsMsg :: ParsedMessage where
  "toolsMsg = \<lparr> role = JStr (lit ''assistant''), content = lit ''both done'',
               timestamp = JStr (lit ''2026-01-01T10:00:09Z''),
               toolNames = [JStr (lit ''Bash''), JStr (lit ''Read'')] \<rparr>"

text \<open>A message as the parser builds it from a \<open>tool_use\<close> item whose \<open>name\<close> is the
  object \<open>{"toString": 1}\<close>.\<close>

definition oddMsg :: ParsedMessage where
  "oddMsg = \<lparr> role = JStr (lit ''assistant''), content = [],
             timestamp = JStr [],
             toolNames = [JObj [(lit ''toString'', JNum (lit ''1''))]] \<rparr>"

text \<open>A user message whose content has 700 characters.\<close>

definition longMsg :: ParsedMessage where
  "longMsg = \<lparr> role = JStr (lit ''user''), content = replicate 700 0x61,
              timestamp = JStr [], toolNames = [] \<rparr>"

section \<open>External calls\<close>

text \<open>\<open>s.trim()\<close> removes the white space and line terminators of ECMAScript at both
  ends.\<close>

definition js_whitespace :: "jschar \<Rightarrow> bool" where
  "js_whitespace c \<longleftrightarrow>
     c \<in> set [0x0009, 0x000A, 0x000B, 0x000C, 0x000D, 0x0020, 0x00A0, 0x1680,
              0x2000, 0x2001, 0x2002, 0x2003, 0x2004, 0x2005, 0x2006, 0x2007, 0x2008,
              0x2009, 0x200A, 0x2028, 0x2029, 0x202F, 0x205F, 0x3000, 0xFEFF]"

definition js_trim :: "jsstring \<Rightarrow> jsstring" where
  "js_trim s = rev (dropWhile js_whitespace (rev (dropWhile js_whitespace s)))"

subsection \<open>embedText (embedder)\<close>

definition OLLAMA_EMBED_URL :: jsstring where
  "OLLAMA_EMBED_URL = lit ''http://localhost:11434/api/embeddings''"

definition EMBED_MODEL :: jsstring where
  "EMBED_MODEL = lit ''embeddinggemma''"

text \<open>
  What \<open>await fetch(url, {method: "POST", ..., body: JSON.stringify(b)})\<close> gives: an
  exception, or a response with its \<open>ok\<close> flag, its \<open>status\<close> and the outcome of
  \<open>await response.json()\<close>. The endpoint is a parameter, a function of the URL and of
  the body \<open>b\<close> that is sent.
\<close>

record Response =
  ok :: bool
  status :: nat
  json :: "js_error + jsval"

text \<open>\<open>String(n)\<close> for a natural number \<open>n\<close>, as the status of a response is: its
  decimal digits.\<close>

fun decimal :: "nat \<Rightarrow> jsstring" where
  "decimal n =
     (if n < 10 then [of_nat (48 + n)] else decimal (n div 10) @ [of_nat (48 + n mod 10)])"

declare decimal.simps [simp del]

type_synonym fetch_fn = "jsstring \<Rightarrow> jsval \<Rightarrow> js_error + Response"

definition embedRequest :: "jsstring \<Rightarrow> jsval" where
  "embedRequest text = JObj [(lit ''model'', JStr EMBED_MODEL), (lit ''prompt'', JStr text)]"

definition embedText :: "fetch_fn \<Rightarrow> jsstring \<Rightarrow> js_error + jsval" where
  "embedText fetch text =
     bindE (fetch OLLAMA_EMBED_URL (embedRequest text)) (\<lambda>response.
       if \<not> ok response
       then Inl (Error (lit ''Ollama error: '' @ decimal (status response)))
       else
         bindE (json response) (\<lambda>data.
         bindE (get_prop data (lit ''embedding'')) (\<lambda>embedding.
           if \<not> truthy embedding
           then Inl (Error (lit ''No embedding in response''))
           else Inr embedding)))"

subsection \<open>summarizeChunk\<close>

text \<open>
  What iterating \<open>query({prompt, options: {model: "haiku", maxTurns: 1}})\<close> gives: the
  messages it yields, and the exception that ends the iteration, if one does. The service
  is a parameter, a function of the prompt.
\<close>

record QueryRun =
  yielded :: "jsval list"
  failure :: "js_error option"

type_synonym query_fn = "jsstring \<Rightarrow> QueryRun"

definition SUMMARY_PROMPT :: jsstring where
  "SUMMARY_PROMPT =
     lit ''Summarize this Claude Code conversation segment in 2-3 sentences. Focus on: what task was being done, what tools were used, what was the outcome.''
     @ lit [CHR 0x0A, CHR 0x0A]"

text \<open>\<open>for (const block of v)\<close>: an array gives its elements, a string its characters
  as strings (one per code unit here; JavaScript keeps a surrogate pair together, which
  makes no difference to a loop body that does nothing on a string), anything else is
  not iterable.\<close>

fun iterate :: "jsval \<Rightarrow> js_error + jsval list" where
  "iterate (JArr xs) = Inr xs"
| "iterate (JStr s) = Inr (map (\<lambda>c. JStr [c]) s)"
| "iterate v = Inl TypeError"

definition summaryBlock :: "jsstring \<Rightarrow> jsval \<Rightarrow> js_error + jsstring" where
  "summaryBlock summary block =
     bindE (get_prop block (lit ''type'')) (\<lambda>ty.
       if ty = JStr (lit ''text'')
       then bindE (get_prop block (lit ''text'')) (\<lambda>t.
            bindE (ToString t) (\<lambda>s. Inr (summary @ s)))
       else Inr summary)"

definition summaryMessage :: "jsstring \<Rightarrow> jsval \<Rightarrow> js_error + jsstring" where
  "summaryMessage summary message =
     bindE (get_prop message (lit ''type'')) (\<lambda>ty.
       if ty = JStr (lit ''assistant'')
       then
         bindE (get_prop message (lit ''message'')) (\<lambda>m.
         bindE (get_prop m (lit ''content'')) (\<lambda>c.
         bindE (iterate c) (\<lambda>blocks. foldE summaryBlock summary blocks)))
       else Inr summary)"

text \<open>The body of the \<open>try\<close>: the loop over the yielded messages, then the exception of
  the iteration if there is one, then \<open>summary.trim()\<close>.\<close>

definition summarizeTry :: "query_fn \<Rightarrow> jsstring \<Rightarrow> js_error + jsstring" where
  "summarizeTry query text =
     (let run = query (SUMMARY_PROMPT @ text)
      in bindE (foldE summaryMessage [] (yielded run)) (\<lambda>summary.
           case failure run of
             Some e \<Rightarrow> Inl e
           | None \<Rightarrow> Inr (js_trim summary)))"

definition summarizeChunk :: "query_fn \<Rightarrow> jsstring \<Rightarrow> js_error + jsstring" where
  "summarizeChunk query text =
     (case summarizeTry query text of
        Inr summary \<Rightarrow> Inr summary
      | Inl e \<Rightarrow> Inr (take 200 text))"

section \<open>The transcript parsers\<close>

text \<open>
  \<open>content.split("\n")\<close>, and \<open>JSON.parse\<close> as a parameter: \<open>None\<close> where it throws, the
  parsed value otherwise.
\<close>

fun splitLoop :: "jsstring \<Rightarrow> jsstring \<Rightarrow> jsstring list" where
  "splitLoop cur [] = [cur]"
| "splitLoop cur (c # cs) =
     (if c = 0x0A then cur # splitLoop [] cs else splitLoop (cur @ [c]) cs)"

definition splitLines :: "jsstring \<Rightarrow> jsstring list" where
  "splitLines s = splitLoop [] s"

type_synonym json_parse = "jsstring \<Rightarrow> jsval option"

text \<open>\<open>Array.isArray(v)\<close>.\<close>

fun isArray :: "jsval \<Rightarrow> bool" where
  "isArray (JArr xs) = True"
| "isArray v = False"

fun elements :: "jsval \<Rightarrow> jsval list" where
  "elements (JArr xs) = xs"
| "elements v = []"

text \<open>
  The text of a user message, in both parsers:
  \<open>contentData.filter(item => item.type === "text").map(item => item.text || "").join(" ")\<close>
  on an array, \<open>String(contentData || "")\<close> otherwise. Both throw when a value has no
  conversion to a string.
\<close>

definition isTextItem :: "jsval \<Rightarrow> js_error + bool" where
  "isTextItem item = bindE (get_prop item (lit ''type'')) (\<lambda>ty. Inr (ty = JStr (lit ''text'')))"

definition itemText :: "jsval \<Rightarrow> js_error + jsval" where
  "itemText item = bindE (get_prop item (lit ''text'')) (\<lambda>t. Inr (js_or t (JStr [])))"

definition userText :: "jsval \<Rightarrow> js_error + jsstring" where
  "userText contentData =
     (if isArray contentData
      then bindE (filterE isTextItem (elements contentData)) (\<lambda>items.
           bindE (mapE itemText items) (\<lambda>texts. Array_join (lit '' '') texts))
      else ToString (js_or contentData (JStr [])))"

subsection \<open>parseSessionJsonl (embedder)\<close>

text \<open>The loop over the content items of an assistant message; its variables are
  \<open>text\<close> and \<open>toolNames\<close> (\<open>names\<close> here). \<open>(item.text || "") + " "\<close> converts
  the text of the item to a string.\<close>

definition assistantItem :: "jsstring \<times> jsval list \<Rightarrow> jsval \<Rightarrow> js_error + jsstring \<times> jsval list" where
  "assistantItem acc item =
     (case acc of (text, names) \<Rightarrow>
        bindE (get_prop item (lit ''type'')) (\<lambda>ty.
        bindE (if ty = JStr (lit ''text'')
               then bindE (get_prop item (lit ''text'')) (\<lambda>t.
                    bindE (ToString (js_or t (JStr []))) (\<lambda>s.
                      Inr (text @ s @ lit '' '')))
               else Inr text) (\<lambda>text'.
        bindE (if ty = JStr (lit ''tool_use'')
               then bindE (get_prop item (lit ''name'')) (\<lambda>n.
                      Inr (names @ [js_or n (JStr [])]))
               else Inr names) (\<lambda>names'.
        Inr (text', names')))))"

text \<open>One parsed line: \<open>None\<close> where the loop body ends in \<open>continue\<close>, the pushed message
  otherwise.\<close>

definition parseEntry :: "jsval \<Rightarrow> js_error + ParsedMessage option" where
  "parseEntry entry =
     bindE (get_prop entry (lit ''type'')) (\<lambda>ty.
       if ty \<noteq> JStr (lit ''user'') \<and> ty \<noteq> JStr (lit ''assistant'') then Inr None
       else
         bindE (get_prop entry (lit ''message'')) (\<lambda>m.
         let msgData = js_or m (JObj []) in
         bindE (get_prop msgData (lit ''role'')) (\<lambda>role.
           if \<not> truthy role then Inr None
           else
             bindE (get_prop entry (lit ''timestamp'')) (\<lambda>ts.
             let timestamp = js_or ts (JStr []) in
             bindE
               (if role = JStr (lit ''user'')
                then bindE (get_prop msgData (lit ''content'')) (\<lambda>contentData.
                     bindE (userText contentData) (\<lambda>text. Inr (text, [])))
                else if role = JStr (lit ''assistant'')
                then bindE (get_prop msgData (lit ''content'')) (\<lambda>c.
                     let contentItems = js_or c (JArr []) in
                     if isArray contentItems
                     then foldE assistantItem ([], []) (elements contentItems)
                     else Inr ([], []))
                else Inr ([], []))
               (\<lambda>(text, names).
                  Inr (Some \<lparr> role = role, content = js_trim text, timestamp = timestamp,
                              toolNames = names \<rparr>))))))"

definition parseLine :: "json_parse \<Rightarrow> jsstring \<Rightarrow> js_error + ParsedMessage option" where
  "parseLine JSON_parse line =
     (if js_trim line = [] then Inr None
      else case JSON_parse line of
             None \<Rightarrow> Inr None
           | Some entry \<Rightarrow> parseEntry entry)"

fun parseLoop :: "json_parse \<Rightarrow> ParsedMessage list \<Rightarrow> jsstring list \<Rightarrow> js_error + ParsedMessage list" where
  "parseLoop JSON_parse msgs [] = Inr msgs"
| "parseLoop JSON_parse msgs (line # rest) =
     bindE (parseLine JSON_parse line) (\<lambda>r.
       parseLoop JSON_parse (case r of None \<Rightarrow> msgs | Some msg \<Rightarrow> msgs @ [msg]) rest)"

definition parseSessionJsonl :: "json_parse \<Rightarrow> jsstring \<Rightarrow> js_error + ParsedMessage list" where
  "parseSessionJsonl JSON_parse raw = parseLoop JSON_parse [] (splitLines raw)"

subsection \<open>parseSessionJsonl (session tools)\<close>

text \<open>
  The tool-call object \<open>tc\<close> that an assistant message creates is shared: it is pushed
  onto the message's \<open>toolCalls\<close> and stored in the \<open>pendingToolCalls\<close> map, and a later
  user message writes its \<open>result\<close> and \<open>isError\<close> through the map. So the tool calls
  live in a store (\<open>heap\<close>, addressed by position), messages and map hold addresses, and
  the parser's result reads the store at the end.
\<close>

record ToolCall =
  name :: jsval
  input :: jsval
  result :: jsstring
  isError :: jsval

record 'tc tools_ParsedMessage =
  t_role :: jsstring
  t_content :: jsstring
  t_timestamp :: jsval
  toolCalls :: "'tc list"
  tokens :: jsval
  model :: jsval

text \<open>
  The \<open>Map\<close> from identifier to tool call. It is only ever read by \<open>get\<close>, \<open>set\<close> and
  \<open>delete\<close>, which find a key with \<open>same_value_zero\<close>: a primitive key by its value,
  while an array or object key is a reference that no later \<open>get\<close> can present again, so
  that an entry stored under it is never found.
\<close>

record ParseState =
  parsed :: "nat tools_ParsedMessage list"
  heap :: "ToolCall list"
  pendingToolCalls :: "jsval \<rightharpoonup> nat"

fun is_primitive :: "jsval \<Rightarrow> bool" where
  "is_primitive (JArr xs) = False"
| "is_primitive (JObj kvs) = False"
| "is_primitive v = True"

definition Map_get :: "(jsval \<rightharpoonup> 'v) \<Rightarrow> jsval \<Rightarrow> 'v option" where
  "Map_get m k = (if is_primitive k then m k else None)"

definition Map_set :: "(jsval \<rightharpoonup> 'v) \<Rightarrow> jsval \<Rightarrow> 'v \<Rightarrow> (jsval \<rightharpoonup> 'v)" where
  "Map_set m k v = (if is_primitive k then m(k \<mapsto> v) else m)"

definition Map_delete :: "(jsval \<rightharpoonup> 'v) \<Rightarrow> jsval \<Rightarrow> (jsval \<rightharpoonup> 'v)" where
  "Map_delete m k = (if is_primitive k then m(k := None) else m)"

text \<open>The three statements under \<open>if (pending)\<close>, once \<open>String(item.content || "")\<close>
  has given the string \<open>s\<close>: the tool call at address \<open>pending\<close> gets its result and
  its error flag, and the map entry is deleted.\<close>

definition resolvePending :: "ParseState \<Rightarrow> nat \<Rightarrow> jsval \<Rightarrow> jsstring \<Rightarrow> jsval \<Rightarrow> ParseState" where
  "resolvePending st pending toolId s ie =
     st\<lparr> heap := (heap st)[pending := (heap st ! pending)
                  \<lparr> result := take 500 s,
                    isError := js_or ie (JBool False) \<rparr>],
         pendingToolCalls := Map_delete (pendingToolCalls st) toolId \<rparr>"

text \<open>The body of the loop over the items of a user message.\<close>

definition toolResultItem :: "ParseState \<Rightarrow> jsval \<Rightarrow> js_error + ParseState" where
  "toolResultItem st item =
     bindE (get_prop item (lit ''type'')) (\<lambda>ty.
       if ty = JStr (lit ''tool_result'')
       then
         bindE (get_prop item (lit ''tool_use_id'')) (\<lambda>tid.
         let toolId = js_or tid (JStr []) in
         case Map_get (pendingToolCalls st) toolId of
           None \<Rightarrow> Inr st
         | Some pending \<Rightarrow>
             bindE (get_prop item (lit ''content'')) (\<lambda>c.
             bindE (ToString (js_or c (JStr []))) (\<lambda>s.
             bindE (get_prop item (lit ''is_error'')) (\<lambda>ie.
               Inr (resolvePending st pending toolId s ie)))))
       else Inr st)"

text \<open>
  The body of the loop over the items of an assistant message; \<open>textParts\<close> and
  \<open>toolCalls\<close> (\<open>calls\<close> here) are its variables, next to the store and the map. A
  \<open>tool_use\<close> item creates the tool call \<open>tc\<close> at the next free address, pushes it and
  stores it in the map (\<open>registerCall\<close>).
\<close>

definition registerCall :: "ParseState \<Rightarrow> jsval \<Rightarrow> jsval \<Rightarrow> jsval \<Rightarrow> ParseState" where
  "registerCall st n i ident =
     st\<lparr> heap := heap st @ [\<lparr> name = js_or n (JStr []), input = js_or i (JObj []),
                               result = [], isError = JBool False \<rparr>],
         pendingToolCalls := Map_set (pendingToolCalls st) (js_or ident (JStr [])) (length (heap st)) \<rparr>"

definition toolUseItem ::
  "jsval list \<times> nat list \<times> ParseState \<Rightarrow> jsval \<Rightarrow> js_error + jsval list \<times> nat list \<times> ParseState" where
  "toolUseItem acc item =
     (case acc of (textParts, calls, st) \<Rightarrow>
        bindE (get_prop item (lit ''type'')) (\<lambda>ty.
          if ty = JStr (lit ''text'')
          then bindE (get_prop item (lit ''text'')) (\<lambda>t.
                 Inr (textParts @ [js_or t (JStr [])], calls, st))
          else if ty = JStr (lit ''tool_use'')
          then
            bindE (get_prop item (lit ''name'')) (\<lambda>n.
            bindE (get_prop item (lit ''input'')) (\<lambda>i.
            bindE (get_prop item (lit ''id'')) (\<lambda>ident.
              Inr (textParts, calls @ [length (heap st)], registerCall st n i ident))))
          else Inr (textParts, calls, st)))"

text \<open>The two branches on \<open>role\<close>, each ending in \<open>messages.push\<close>.\<close>

definition userEntry :: "ParseState \<Rightarrow> jsval \<Rightarrow> jsval \<Rightarrow> js_error + ParseState" where
  "userEntry st msgData ts =
     bindE (get_prop msgData (lit ''content'')) (\<lambda>contentData.
     bindE (if isArray contentData
            then foldE toolResultItem st (elements contentData)
            else Inr st) (\<lambda>st'.
     bindE (userText contentData) (\<lambda>text.
       Inr (st'\<lparr> parsed := parsed st' @
              [\<lparr> t_role = lit ''user'', t_content = text, t_timestamp = ts,
                 toolCalls = [], tokens = JObj [], model = JStr [] \<rparr>] \<rparr>))))"

definition assistantEntry :: "ParseState \<Rightarrow> jsval \<Rightarrow> jsval \<Rightarrow> js_error + ParseState" where
  "assistantEntry st msgData ts =
     bindE (get_prop msgData (lit ''content'')) (\<lambda>c.
     let contentItems = js_or c (JArr []) in
     bindE (if isArray contentItems
            then foldE toolUseItem ([], [], st) (elements contentItems)
            else Inr ([], [], st)) (\<lambda>(textParts, calls, st').
     bindE (Array_join (lit '' '') textParts) (\<lambda>joined.
     bindE (get_prop msgData (lit ''usage'')) (\<lambda>u.
     bindE (get_prop msgData (lit ''model'')) (\<lambda>md.
       Inr (st'\<lparr> parsed := parsed st' @
              [\<lparr> t_role = lit ''assistant'',
                 t_content = joined,
                 t_timestamp = ts, toolCalls = calls,
                 tokens = js_or u (JObj []), model = js_or md (JStr []) \<rparr>] \<rparr>))))))"

text \<open>The body of the loop over the lines, for a line that parsed to \<open>entry\<close>.\<close>

definition processEntry :: "ParseState \<Rightarrow> jsval \<Rightarrow> js_error + ParseState" where
  "processEntry st entry =
     bindE (get_prop entry (lit ''type'')) (\<lambda>entryType.
       if entryType \<noteq> JStr (lit ''user'') \<and> entryType \<noteq> JStr (lit ''assistant'') then Inr st
       else
         bindE (get_prop entry (lit ''message'')) (\<lambda>m.
         let msgData = js_or m (JObj []) in
         bindE (get_prop msgData (lit ''role'')) (\<lambda>role.
           if \<not> truthy role then Inr st
           else
             bindE (get_prop entry (lit ''timestamp'')) (\<lambda>ts.
             let timestamp = js_or ts (JStr []) in
             if role = JStr (lit ''user'') then userEntry st msgData timestamp
             else if role = JStr (lit ''assistant'') then assistantEntry st msgData timestamp
             else Inr st))))"

definition processLine :: "json_parse \<Rightarrow> ParseState \<Rightarrow> jsstring \<Rightarrow> js_error + ParseState" where
  "processLine JSON_parse st line =
     (if js_trim line = [] then Inr st
      else case JSON_parse line of
             None \<Rightarrow> Inr st
           | Some entry \<Rightarrow> processEntry st entry)"

text \<open>The returned \<open>messages\<close>: each message with the tool calls its addresses point to.\<close>

definition resolveMessage :: "ToolCall list \<Rightarrow> nat tools_ParsedMessage \<Rightarrow> ToolCall tools_ParsedMessage" where
  "resolveMessage h m =
     \<lparr> t_role = t_role m, t_content = t_content m, t_timestamp = t_timestamp m,
       toolCalls = map (\<lambda>a. h ! a) (toolCalls m), tokens = tokens m, model = model m \<rparr>"

definition returned :: "ParseState \<Rightarrow> ToolCall tools_ParsedMessage list" where
  "returned st = map (resolveMessage (heap st)) (parsed st)"

definition initialState :: ParseState where
  "initialState = \<lparr> parsed = [], heap = [], pendingToolCalls = Map.empty \<rparr>"

definition tools_parseSessionJsonl ::
  "json_parse \<Rightarrow> jsstring \<Rightarrow> js_error + ToolCall tools_ParsedMessage list" where
  "tools_parseSessionJsonl JSON_parse raw =
     bindE (foldE (processLine JSON_parse) initialState (splitLines raw)) (\<lambda>st. Inr (returned st))"


definition settled :: "ParseState \<Rightarrow> nat \<Rightarrow> bool" where
  "settled st a \<longleftrightarrow> a < length (heap st) \<and> (\<forall>k. pendingToolCalls st k \<noteq> Some a)"


subsection \<open>Items, keys and lines\<close>

text \<open>
  The words for what a log holds. \<open>field v k\<close> is the property \<open>k\<close> of an object. An
  item is a \<open>tool_use\<close> for the key \<open>k\<close> when that is its type and \<open>item.id || ""\<close> is
  \<open>k\<close>, and a \<open>tool_result\<close> for \<open>k\<close> when that is its type and
  \<open>item.tool_use_id || ""\<close> is \<open>k\<close>. The tool call that a \<open>tool_use\<close> item creates is
  \<open>cellOf\<close> it. A line is a message line with role \<open>r\<close> and items \<open>items\<close> when it parses
  to an entry of type \<open>r\<close> whose message has role \<open>r\<close> and the array \<open>items\<close> as content.
  \<open>lineItems\<close> are the items that a line can present to the parser at all.
\<close>

definition field :: "jsval \<Rightarrow> jsstring \<Rightarrow> jsval" where
  "field v k = (case get_prop v k of Inr x \<Rightarrow> x | Inl e \<Rightarrow> JUndefined)"

definition isItem :: "jsstring \<Rightarrow> jsval \<Rightarrow> bool" where
  "isItem ty item \<longleftrightarrow> get_prop item (lit ''type'') = Inr (JStr ty)"

definition toolUseFor :: "jsval \<Rightarrow> jsval \<Rightarrow> bool" where
  "toolUseFor k item \<longleftrightarrow>
     isItem (lit ''tool_use'') item \<and> js_or (field item (lit ''id'')) (JStr []) = k"

definition toolResultFor :: "jsval \<Rightarrow> jsval \<Rightarrow> bool" where
  "toolResultFor k item \<longleftrightarrow>
     isItem (lit ''tool_result'') item \<and> js_or (field item (lit ''tool_use_id'')) (JStr []) = k"

definition cellOf :: "jsval \<Rightarrow> ToolCall" where
  "cellOf item =
     \<lparr> name = js_or (field item (lit ''name'')) (JStr []),
       input = js_or (field item (lit ''input'')) (JObj []),
       result = [], isError = JBool False \<rparr>"


definition lineItems :: "json_parse \<Rightarrow> jsstring \<Rightarrow> jsval list" where
  "lineItems JSON_parse line =
     (case JSON_parse line of
        None \<Rightarrow> []
      | Some entry \<Rightarrow>
          elements (field (js_or (field entry (lit ''message'')) (JObj [])) (lit ''content'')))"


section \<open>The batch pipeline\<close>

text \<open>
  The world the pipeline runs in: the file system, the two services and the built-in
  functions of the language that the model does not spell out (\<open>path.join\<close>,
  \<open>JSON.parse\<close>, \<open>Object.keys\<close>, which gives strings, and the operator \<open>+\<close>, which
  throws when an operand has no conversion to a primitive). Each is a function of its
  arguments, the same in every run. The database is reachable throughout a run, so that the
  statements of \<open>ensureTable\<close> and \<open>getEmbeddedSessionIds\<close> succeed; an \<open>INSERT\<close> can be
  refused for its row.
\<close>

record ChunkRecord =
  session_id :: jsstring
  chunk_index :: nat
  row_summary :: jsstring
  raw_excerpt :: jsstring
  embedding_vec :: jsstring
  start_time :: jsval
  end_time :: jsval
  tools_used :: "jsval list"
  row_project :: jsval
  token_count :: jsval

record World =
  os_homedir :: jsstring
  path_join :: "jsstring list \<Rightarrow> jsstring"
  fs_readdir :: "jsstring \<Rightarrow> js_error + jsstring list"
  fs_access :: "jsstring \<Rightarrow> bool"
  fs_readFile :: "jsstring \<Rightarrow> js_error + jsstring"
  JSON_parse_of :: json_parse
  Object_keys :: "jsval \<Rightarrow> jsstring list"
  js_plus :: "jsval \<Rightarrow> jsval \<Rightarrow> js_error + jsval"
  sdk_query :: query_fn
  http_fetch :: fetch_fn
  insert_error :: "ChunkRecord \<Rightarrow> js_error option"

definition SESSION_META_DIR :: "World \<Rightarrow> jsstring" where
  "SESSION_META_DIR w =
     path_join w [os_homedir w, lit ''.claude'', lit ''usage-data'', lit ''session-meta'']"

definition PROJECTS_DIR :: "World \<Rightarrow> jsstring" where
  "PROJECTS_DIR w = path_join w [os_homedir w, lit ''.claude'', lit ''projects'']"

text \<open>\<open>s.endsWith(t)\<close>, \<open>s.startsWith(t)\<close> and \<open>s.replace(t, r)\<close>, which replaces the first
  occurrence of the string \<open>t\<close>.\<close>

definition js_endsWith :: "jsstring \<Rightarrow> jsstring \<Rightarrow> bool" where
  "js_endsWith s t \<longleftrightarrow> length t \<le> length s \<and> drop (length s - length t) s = t"

definition js_startsWith :: "jsstring \<Rightarrow> jsstring \<Rightarrow> bool" where
  "js_startsWith s t \<longleftrightarrow> take (length t) s = t"

fun js_replace :: "jsstring \<Rightarrow> jsstring \<Rightarrow> jsstring \<Rightarrow> jsstring" where
  "js_replace t r [] = (if t = [] then r else [])"
| "js_replace t r (c # cs) =
     (if take (length t) (c # cs) = t then r @ drop (length t) (c # cs)
      else c # js_replace t r cs)"

subsection \<open>findSessionJsonl\<close>

fun findLoop :: "World \<Rightarrow> jsstring \<Rightarrow> jsstring list \<Rightarrow> jsstring option" where
  "findLoop w sessionId [] = None"
| "findLoop w sessionId (dir # dirs) =
     (let jsonlPath = path_join w [PROJECTS_DIR w, dir, sessionId @ lit ''.jsonl'']
      in if fs_access w jsonlPath then Some jsonlPath else findLoop w sessionId dirs)"

definition findSessionJsonl :: "World \<Rightarrow> jsstring \<Rightarrow> jsstring option" where
  "findSessionJsonl w sessionId =
     (case fs_readdir w (PROJECTS_DIR w) of
        Inl e \<Rightarrow> None
      | Inr projectDirs \<Rightarrow> findLoop w sessionId projectDirs)"

subsection \<open>The database\<close>

text \<open>The table \<open>session_chunks\<close> is the list of its rows, in insertion order.\<close>

definition getEmbeddedSessionIds :: "ChunkRecord list \<Rightarrow> jsstring set" where
  "getEmbeddedSessionIds db = set (map session_id db)"

text \<open>\<open>embedding.join(",")\<close>: only an array has the method.\<close>

fun joinMethod :: "jsval \<Rightarrow> jsstring \<Rightarrow> js_error + jsstring" where
  "joinMethod (JArr xs) sep = Array_join sep xs"
| "joinMethod v sep = Inl TypeError"

definition insertChunk ::
  "World \<Rightarrow> ChunkRecord list \<Rightarrow> jsstring \<Rightarrow> Chunk \<Rightarrow> jsstring \<Rightarrow> jsval \<Rightarrow> jsval \<Rightarrow> jsval
     \<Rightarrow> js_error + ChunkRecord list" where
  "insertChunk w db sessionId chunk summary embedding project tokenCount =
     bindE (joinMethod embedding (lit '','')) (\<lambda>joined.
       let embeddingStr = lit ''['' @ joined @ lit '']'';
           row = \<lparr> session_id = sessionId,
                   chunk_index = chunkIndex chunk,
                   row_summary = summary,
                   raw_excerpt = take 2000 (chunkText chunk),
                   embedding_vec = embeddingStr,
                   start_time = js_or (startTime chunk) JNull,
                   end_time = js_or (endTime chunk) JNull,
                   tools_used = toolsUsed chunk,
                   row_project = project,
                   token_count = tokenCount \<rparr>
       in case insert_error w row of
            Some e \<Rightarrow> Inl e
          | None \<Rightarrow> Inr (db @ [row]))"

subsection \<open>One session\<close>

text \<open>How the loop body of \<open>main\<close> ends for a session that is not skipped at its top:
  \<open>processed++\<close>, \<open>skipped++\<close>, \<open>errors++\<close>, or an exception that leaves \<open>main\<close>.\<close>

datatype outcome = Processed | Skipped | Errored | Fatal js_error

text \<open>The arguments \<open>meta.project_path || ""\<close> and
  \<open>(meta.input_tokens || 0) + (meta.output_tokens || 0)\<close> of \<open>insertChunk\<close>.\<close>

definition metaProject :: "jsval \<Rightarrow> js_error + jsval" where
  "metaProject meta =
     bindE (get_prop meta (lit ''project_path'')) (\<lambda>p. Inr (js_or p (JStr [])))"

definition metaTokens :: "World \<Rightarrow> jsval \<Rightarrow> js_error + jsval" where
  "metaTokens w meta =
     bindE (get_prop meta (lit ''input_tokens'')) (\<lambda>i.
     bindE (get_prop meta (lit ''output_tokens'')) (\<lambda>out.
       js_plus w (js_or i (JNum (lit ''0''))) (js_or out (JNum (lit ''0'')))))"

text \<open>\<open>v?.slice(0, 200)\<close>: \<open>undefined\<close> on \<open>null\<close> and \<open>undefined\<close>, the method of a string
  or an array, and a TypeError on a value that has no such method.\<close>

fun optionalSlice200 :: "jsval \<Rightarrow> js_error + jsval" where
  "optionalSlice200 JUndefined = Inr JUndefined"
| "optionalSlice200 JNull = Inr JUndefined"
| "optionalSlice200 (JStr s) = Inr (JStr (take 200 s))"
| "optionalSlice200 (JArr xs) = Inr (JArr (take 200 xs))"
| "optionalSlice200 v = Inl TypeError"

text \<open>The template literal \<open>summaryText\<close> of a session without a log: each
  substitution is evaluated and converted to a string, from left to right.\<close>

definition metaSummaryText :: "World \<Rightarrow> jsval \<Rightarrow> js_error + jsstring" where
  "metaSummaryText w meta =
     bindE (get_prop meta (lit ''summary'')) (\<lambda>s.
     bindE (if truthy s then Inr s
            else bindE (get_prop meta (lit ''first_prompt'')) (\<lambda>fp.
                 bindE (optionalSlice200 fp) (\<lambda>sl.
                   Inr (js_or sl (JStr (lit ''Unknown'')))))) (\<lambda>title.
     bindE (ToString title) (\<lambda>titleText.
     bindE (get_prop meta (lit ''project_path'')) (\<lambda>p.
     bindE (ToString p) (\<lambda>projectText.
     bindE (get_prop meta (lit ''duration_minutes'')) (\<lambda>d.
     bindE (ToString d) (\<lambda>durationText.
     bindE (get_prop meta (lit ''tool_counts'')) (\<lambda>tc.
       Inr (lit ''Session: '' @ titleText @ lit ''. Project: '' @ projectText
            @ lit ''. Duration: '' @ durationText @ lit ''min. Tools: ''
            @ js_join (lit '', '') (Object_keys w (js_or tc (JObj []))))))))))))"

text \<open>The \<open>try\<close> block of a session without a log, from the database before to the
  database after.\<close>

definition metaOnlyTry :: "World \<Rightarrow> jsstring \<Rightarrow> jsval \<Rightarrow> ChunkRecord list \<Rightarrow> js_error + ChunkRecord list" where
  "metaOnlyTry w sessionId meta db =
     bindE (metaSummaryText w meta) (\<lambda>summaryText.
     bindE (embedText (http_fetch w) summaryText) (\<lambda>embedding.
     bindE (get_prop meta (lit ''start_time'')) (\<lambda>st.
     bindE (get_prop meta (lit ''tool_counts'')) (\<lambda>tc.
     bindE (metaProject meta) (\<lambda>project.
     bindE (metaTokens w meta) (\<lambda>tokenCount.
       insertChunk w db sessionId
         \<lparr> chunkIndex = 0, messages = [], chunkText = summaryText, startTime = st,
           endTime = JStr [], toolsUsed = map JStr (Object_keys w (js_or tc (JObj []))) \<rparr>
         summaryText embedding project tokenCount))))))"

text \<open>
  The loop over the chunks of a session with a log. An exception leaves the loop for the
  \<open>catch\<close> of the session; the rows inserted before it stay in the table, so the loop
  returns the table together with the exception.
\<close>

fun chunkInsertLoop ::
  "World \<Rightarrow> jsstring \<Rightarrow> jsval \<Rightarrow> ChunkRecord list \<Rightarrow> Chunk list
     \<Rightarrow> ChunkRecord list \<times> js_error option" where
  "chunkInsertLoop w sessionId meta db [] = (db, None)"
| "chunkInsertLoop w sessionId meta db (chunk # chunks) =
     (case bindE (summarizeChunk (sdk_query w) (chunkText chunk)) (\<lambda>summary.
           bindE (embedText (http_fetch w) summary) (\<lambda>embedding.
           bindE (metaProject meta) (\<lambda>project.
           bindE (metaTokens w meta) (\<lambda>tokenCount.
             insertChunk w db sessionId chunk summary embedding project tokenCount)))) of
        Inl e \<Rightarrow> (db, Some e)
      | Inr db' \<Rightarrow> chunkInsertLoop w sessionId meta db' chunks)"

text \<open>The rest of the loop body of \<open>main\<close>, after the two tests that skip a session: the
  table after it and how it ends. For a session with a log,
  \<open>console.log(`  Project: ${meta.project_path}`)\<close> stands before the \<open>try\<close>: reading
  the property of a meta value \<open>null\<close> and converting a project path that has no
  conversion to a string both throw out of \<open>main\<close>.\<close>

definition processSession ::
  "World \<Rightarrow> jsstring \<Rightarrow> jsstring \<Rightarrow> ChunkRecord list \<Rightarrow> ChunkRecord list \<times> outcome" where
  "processSession w file sessionId db =
     (case bindE (fs_readFile w (path_join w [SESSION_META_DIR w, file])) (\<lambda>raw.
             case JSON_parse_of w raw of None \<Rightarrow> Inl SyntaxError | Some meta \<Rightarrow> Inr meta) of
        Inl e \<Rightarrow> (db, Errored)
      | Inr meta \<Rightarrow>
          (case findSessionJsonl w sessionId of
             None \<Rightarrow>
               (case metaOnlyTry w sessionId meta db of
                  Inl e \<Rightarrow> (db, Errored)
                | Inr db' \<Rightarrow> (db', Processed))
           | Some jsonlPath \<Rightarrow>
               (case bindE (get_prop meta (lit ''project_path'')) ToString of
                  Inl e \<Rightarrow> (db, Fatal e)
                | Inr projectText \<Rightarrow>
                    (case bindE (fs_readFile w jsonlPath) (\<lambda>jsonlContent.
                            parseSessionJsonl (JSON_parse_of w) jsonlContent) of
                       Inl e \<Rightarrow> (db, Errored)
                     | Inr msgs \<Rightarrow>
                         if length msgs = 0 then (db, Skipped)
                         else
                           (case chunkSession msgs of
                              Inl e \<Rightarrow> (db, Errored)
                            | Inr chunks \<Rightarrow>
                                (case chunkInsertLoop w sessionId meta db chunks of
                                   (db', Some e) \<Rightarrow> (db', Errored)
                                 | (db', None) \<Rightarrow> (db', Processed)))))))"

subsection \<open>main\<close>

text \<open>
  A run: the table, the three counters, and the exception that ended the run with
  \<open>process.exit(1)\<close> if one did. \<open>maxSessions\<close> is the integer after \<open>--limit\<close>, or
  \<open>None\<close> for \<open>Infinity\<close>; \<open>force\<close> is the flag \<open>--force\<close>.
\<close>

record Run =
  rows :: "ChunkRecord list"
  processed :: nat
  skipped :: nat
  errors :: nat
  fatal :: "js_error option"

definition reached :: "int option \<Rightarrow> nat \<Rightarrow> bool" where
  "reached maxSessions n = (case maxSessions of None \<Rightarrow> False | Some m \<Rightarrow> int n \<ge> m)"

fun sessionLoop :: "World \<Rightarrow> jsstring set \<Rightarrow> int option \<Rightarrow> jsstring list \<Rightarrow> Run \<Rightarrow> Run" where
  "sessionLoop w embeddedIds maxSessions [] run = run"
| "sessionLoop w embeddedIds maxSessions (file # rest) run =
     (if reached maxSessions (processed run) then run
      else
        let sessionId = js_replace (lit ''.json'') [] file in
        if sessionId \<in> embeddedIds
        then sessionLoop w embeddedIds maxSessions rest (run\<lparr> skipped := skipped run + 1 \<rparr>)
        else if js_startsWith sessionId (lit ''agent-'')
        then sessionLoop w embeddedIds maxSessions rest (run\<lparr> skipped := skipped run + 1 \<rparr>)
        else
          (case processSession w file sessionId (rows run) of
             (db', Processed) \<Rightarrow>
               sessionLoop w embeddedIds maxSessions rest
                 (run\<lparr> rows := db', processed := processed run + 1 \<rparr>)
           | (db', Skipped) \<Rightarrow>
               sessionLoop w embeddedIds maxSessions rest
                 (run\<lparr> rows := db', skipped := skipped run + 1 \<rparr>)
           | (db', Errored) \<Rightarrow>
               sessionLoop w embeddedIds maxSessions rest
                 (run\<lparr> rows := db', errors := errors run + 1 \<rparr>)
           | (db', Fatal e) \<Rightarrow> run\<lparr> rows := db', fatal := Some e \<rparr>))"

text \<open>The check that Ollama runs: \<open>fetch("http://localhost:11434/api/tags")\<close> must
  return an \<open>ok\<close> response.\<close>

definition ollamaRunning :: "World \<Rightarrow> bool" where
  "ollamaRunning w =
     (case http_fetch w (lit ''http://localhost:11434/api/tags'') JUndefined of
        Inl e \<Rightarrow> False
      | Inr resp \<Rightarrow> ok resp)"

definition main :: "World \<Rightarrow> bool \<Rightarrow> int option \<Rightarrow> ChunkRecord list \<Rightarrow> Run" where
  "main w force maxSessions db =
     (let start = \<lparr> rows = db, processed = 0, skipped = 0, errors = 0, fatal = None \<rparr>
      in case fs_readdir w (SESSION_META_DIR w) of
           Inl e \<Rightarrow> start\<lparr> fatal := Some e \<rparr>
         | Inr metaFiles \<Rightarrow>
             let jsonFiles = filter (\<lambda>f. js_endsWith f (lit ''.json'')) metaFiles;
                 embeddedIds = (if force then {} else getEmbeddedSessionIds db)
             in if \<not> ollamaRunning w
                then start\<lparr> fatal := Some (Error (lit ''Ollama is not running'')) \<rparr>
                else sessionLoop w embeddedIds maxSessions jsonFiles start)"

section \<open>The similarity search\<close>



subsection \<open>embedText (session tools)\<close>


subsection \<open>The query\<close>






subsection \<open>searchSessions\<close>





section \<open>Sample inputs\<close>

text \<open>A log line whose role is neither \<open>user\<close> nor \<open>assistant\<close>, with the value it
  parses to.\<close>

definition systemLine :: jsstring where
  "systemLine = lit ''{\"type\":\"user\",\"message\":{\"role\":\"system\",\"content\":\"x\"}}''"

definition systemEntry :: jsval where
  "systemEntry =
     JObj [(lit ''type'', JStr (lit ''user'')),
           (lit ''message'', JObj [(lit ''role'', JStr (lit ''system'')),
                                   (lit ''content'', JStr (lit ''x''))])]"

definition systemParse :: json_parse where
  "systemParse line = (if line = systemLine then Some systemEntry else None)"

text \<open>
  The scenario of a \<open>Read\<close> call with identifier \<open>t1\<close> and its result \<open>ok\<close>: the two
  content items and the two log lines with the values they parse to.
\<close>

definition readUse :: jsval where
  "readUse = JObj [(lit ''type'', JStr (lit ''tool_use'')), (lit ''id'', JStr (lit ''t1'')),
                   (lit ''name'', JStr (lit ''Read''))]"

definition readResult :: jsval where
  "readResult = JObj [(lit ''type'', JStr (lit ''tool_result'')),
                      (lit ''tool_use_id'', JStr (lit ''t1'')),
                      (lit ''content'', JStr (lit ''ok'')), (lit ''is_error'', JBool False)]"

definition readUseLine :: jsstring where
  "readUseLine = lit ''{\"type\":\"assistant\",\"message\":{\"role\":\"assistant\",\"content\":[{\"type\":\"tool_use\",\"id\":\"t1\",\"name\":\"Read\"}]}}''"

definition readResultLine :: jsstring where
  "readResultLine = lit ''{\"type\":\"user\",\"message\":{\"role\":\"user\",\"content\":[{\"type\":\"tool_result\",\"tool_use_id\":\"t1\",\"content\":\"ok\",\"is_error\":false}]}}''"

text \<open>A result for \<open>t1\<close> whose content is the object \<open>{"toString": 1}\<close>, and its
  line.\<close>

definition oddResult :: jsval where
  "oddResult = JObj [(lit ''type'', JStr (lit ''tool_result'')),
                     (lit ''tool_use_id'', JStr (lit ''t1'')),
                     (lit ''content'', JObj [(lit ''toString'', JNum (lit ''1''))])]"

definition oddResultLine :: jsstring where
  "oddResultLine = lit ''{\"type\":\"user\",\"message\":{\"role\":\"user\",\"content\":[{\"type\":\"tool_result\",\"tool_use_id\":\"t1\",\"content\":{\"toString\":1}}]}}''"

definition readParse :: json_parse where
  "readParse line =
     (if line = readUseLine
      then Some (JObj [(lit ''type'', JStr (lit ''assistant'')),
                       (lit ''message'', JObj [(lit ''role'', JStr (lit ''assistant'')),
                                               (lit ''content'', JArr [readUse])])])
      else if line = readResultLine
      then Some (JObj [(lit ''type'', JStr (lit ''user'')),
                       (lit ''message'', JObj [(lit ''role'', JStr (lit ''user'')),
                                               (lit ''content'', JArr [readResult])])])
      else if line = oddResultLine
      then Some (JObj [(lit ''type'', JStr (lit ''user'')),
                       (lit ''message'', JObj [(lit ''role'', JStr (lit ''user'')),
                                               (lit ''content'', JArr [oddResult])])])
      else None)"

text \<open>An embedding endpoint that answers with a vector, and one that answers with
  status 500.\<close>

definition vectorFetch :: fetch_fn where
  "vectorFetch url body =
     Inr \<lparr> ok = True, status = 200,
           json = Inr (JObj [(lit ''embedding'', JArr [JNum (lit ''0.25''), JNum (lit ''-1'')])]) \<rparr>"

definition brokenFetch :: fetch_fn where
  "brokenFetch url body =
     Inr \<lparr> ok = False, status = 500, json = Inl SyntaxError \<rparr>"

text \<open>A summarization service that yields one assistant message and then fails.\<close>

definition failingQuery :: query_fn where
  "failingQuery prompt =
     \<lparr> yielded = [JObj [(lit ''type'', JStr (lit ''assistant'')),
                         (lit ''message'',
                          JObj [(lit ''content'',
                                 JArr [JObj [(lit ''type'', JStr (lit ''text'')),
                                             (lit ''text'', JStr (lit ''The user''))]])])]],
       failure = Some (Error (lit ''aborted'')) \<rparr>"

text \<open>
  A world with two sessions \<open>a\<close> and \<open>b\<close> that have meta files \<open>{}\<close> and no log: the
  embedding endpoint answers every request with a vector of 768 ones and the table takes
  every row. \<open>metaRow\<close> is the row that the pipeline inserts for such a session.
\<close>

definition onesFetch :: fetch_fn where
  "onesFetch url body =
     Inr \<lparr> ok = True, status = 200,
           json = Inr (JObj [(lit ''embedding'', JArr (replicate 768 (JNum (lit ''1''))))]) \<rparr>"

definition twoSessions :: World where
  "twoSessions =
     \<lparr> os_homedir = lit ''/home/u'',
       path_join = js_join (lit ''/''),
       fs_readdir = (\<lambda>dir. if dir = lit ''/home/u/.claude/usage-data/session-meta''
                            then Inr [lit ''a.json'', lit ''b.json'']
                            else Inl (Error (lit ''ENOENT''))),
       fs_access = (\<lambda>p. False),
       fs_readFile = (\<lambda>p. Inr (lit ''{}'')),
       JSON_parse_of = (\<lambda>s. if s = lit ''{}'' then Some (JObj []) else None),
       Object_keys = (\<lambda>v. []),
       js_plus = (\<lambda>a b. Inr a),
       sdk_query = failingQuery,
       http_fetch = onesFetch,
       insert_error = (\<lambda>row. None) \<rparr>"

definition metaRow :: "jsstring \<Rightarrow> ChunkRecord" where
  "metaRow sessionId =
     \<lparr> session_id = sessionId,
       chunk_index = 0,
       row_summary = lit ''Session: Unknown. Project: undefined. Duration: undefinedmin. Tools: '',
       raw_excerpt = lit ''Session: Unknown. Project: undefined. Duration: undefinedmin. Tools: '',
       embedding_vec = lit ''['' @ js_join (lit '','') (replicate 768 (lit ''1'')) @ lit '']'',
       start_time = JNull,
       end_time = JNull,
       tools_used = [],
       row_project = JStr [],
       token_count = JNum (lit ''0'') \<rparr>"

text \<open>The same world, where every session has a log and the log holds the one line
  \<open>{}\<close>, which is no message.\<close>

definition emptyLogs :: World where
  "emptyLogs = twoSessions\<lparr> fs_readdir := (\<lambda>dir. Inr [lit ''a.json'']),
                            fs_access := (\<lambda>p. True) \<rparr>"








text \<open>A world whose meta files hold a project path without conversion to a string.\<close>

definition oddMetaText :: jsstring where
  "oddMetaText = lit ''{\"project_path\":{\"toString\":1}}''"

definition oddMeta :: World where
  "oddMeta = emptyLogs\<lparr> fs_readFile := (\<lambda>p. Inr oddMetaText),
       JSON_parse_of := (\<lambda>s. if s = oddMetaText
          then Some (JObj [(lit ''project_path'', JObj [(lit ''toString'', JNum (lit ''1''))])])
          else None) \<rparr>"

section \<open>Properties of the conversions\<close>

lemma bindE_Inr [simp]: "bindE (Inr x) f = f x"
  by (simp add: bindE_def)

lemma bindE_Inl [simp]: "bindE (Inl e) f = Inl e"
  by (simp add: bindE_def)

lemma bindE_Inr_iff: "bindE r f = Inr y \<longleftrightarrow> (\<exists>x. r = Inr x \<and> f x = Inr y)"
  by (cases r) simp_all

lemma bindE_Inl_iff: "bindE r f = Inl e \<longleftrightarrow> r = Inl e \<or> (\<exists>x. r = Inr x \<and> f x = Inl e)"
  by (cases r) simp_all

lemma bindE_return [simp]: "bindE r Inr = r"
  by (cases r) simp_all

lemma mapE_Inr_iff: "mapE f xs = Inr ys \<longleftrightarrow> list_all2 (\<lambda>x y. f x = Inr y) xs ys"
proof (induction xs arbitrary: ys)
  case Nil
  then show ?case by auto
next
  case (Cons x xs)
  show ?case
    by (cases ys) (auto simp: bindE_Inr_iff Cons.IH)
qed

lemma mapE_Inl: "mapE f xs = Inl e \<Longrightarrow> \<exists>x \<in> set xs. f x = Inl e"
  by (induction xs) (auto simp: bindE_Inl_iff)

lemma mapE_fails: "x \<in> set xs \<Longrightarrow> f x = Inl e \<Longrightarrow> \<exists>e'. mapE f xs = Inl e'"
proof (induction xs)
  case Nil
  then show ?case by simp
next
  case (Cons y ys)
  show ?case
  proof (cases "f y")
    case (Inl a)
    then show ?thesis by simp
  next
    case (Inr b)
    show ?thesis
    proof (cases "mapE f ys")
      case (Inl a)
      with Inr show ?thesis by simp
    next
      case r: (Inr bs)
      with Cons Inr show ?thesis by auto
    qed
  qed
qed

lemma mapE_map: "(\<And>x. x \<in> set xs \<Longrightarrow> f x = Inr (g x)) \<Longrightarrow> mapE f xs = Inr (map g xs)"
  by (induction xs) simp_all

lemma mapE_returns_iff: "(\<exists>ys. mapE f xs = Inr ys) \<longleftrightarrow> (\<forall>x \<in> set xs. \<exists>y. f x = Inr y)"
proof
  assume "\<exists>ys. mapE f xs = Inr ys"
  then obtain ys where "list_all2 (\<lambda>x y. f x = Inr y) xs ys" by (auto simp: mapE_Inr_iff)
  then show "\<forall>x \<in> set xs. \<exists>y. f x = Inr y"
    by (induction rule: list_all2_induct) auto
next
  assume a: "\<forall>x \<in> set xs. \<exists>y. f x = Inr y"
  show "\<exists>ys. mapE f xs = Inr ys"
  proof (cases "mapE f xs")
    case (Inl e)
    from mapE_Inl [OF this] a show ?thesis by auto
  next
    case (Inr ys)
    then show ?thesis by blast
  qed
qed

lemma ToString_TypeError:
  "ToString v = Inl e \<Longrightarrow> e = TypeError"
  "elementStrings xs = Inl e \<Longrightarrow> e = TypeError"
proof (induction v and xs arbitrary: e and e rule: ToString_elementStrings.induct)
  case (9 x xs)
  then show ?case
    by (cases x) (auto simp: bindE_Inl_iff)
qed (auto simp: bindE_Inl_iff split: if_splits)

lemma elementStrings_returns_iff:
  "(\<exists>ss. elementStrings xs = Inr ss) \<longleftrightarrow> (\<forall>x \<in> set xs. \<exists>s. ToString x = Inr s)"
proof (induction xs)
  case Nil
  then show ?case by simp
next
  case (Cons x xs)
  have "(\<exists>ss. elementStrings (x # xs) = Inr ss) \<longleftrightarrow>
        (\<exists>s. ToString x = Inr s) \<and> (\<exists>ss. elementStrings xs = Inr ss)"
    by (cases x) (auto simp: bindE_Inr_iff)
  then show ?case
    unfolding Cons.IH by simp
qed

lemma elementStrings_strings: "elementStrings (map JStr ss) = Inr ss"
  by (induction ss) simp_all

lemma elementStrings_numbers: "elementStrings (map JNum rs) = Inr rs"
  by (induction rs) simp_all

lemma elementStrings_length: "elementStrings xs = Inr ss \<Longrightarrow> length ss = length xs"
  by (induction xs arbitrary: ss) (auto simp: bindE_Inr_iff)

lemma js_join_spec: "js_join sep xs = spec_joined sep xs"
  by (induction sep xs rule: js_join.induct) (simp_all add: spec_joined_def)

lemma Array_join_strings: "Array_join sep (map JStr ss) = Inr (spec_joined sep ss)"
  by (simp add: Array_join_def elementStrings_strings js_join_spec)

lemma Array_join_returns_iff:
  "(\<exists>s. Array_join sep xs = Inr s) \<longleftrightarrow> (\<forall>x \<in> set xs. \<exists>s. ToString x = Inr s)"
  unfolding elementStrings_returns_iff [symmetric]
  by (cases "elementStrings xs") (simp_all add: Array_join_def)

section \<open>Properties of the chunker\<close>

subsection \<open>The text of a chunk\<close>

lemma formatMessage_general:
  "elementStrings (toolNames m) = Inr names \<Longrightarrow> formatMessage m = Inr (spec_rendering m names)"
  by (cases "toolNames m")
     (auto simp: formatMessage_def spec_rendering_def Array_join_def js_join_spec Let_def
           bindE_Inr_iff)

lemma formatMessage_returns_iff:
  "(\<exists>s. formatMessage m = Inr s) \<longleftrightarrow> (\<forall>n \<in> set (toolNames m). \<exists>s. ToString n = Inr s)"
proof (cases "toolNames m = []")
  case True
  then show ?thesis by (simp add: formatMessage_def)
next
  case False
  have "(\<exists>s. formatMessage m = Inr s) \<longleftrightarrow> (\<exists>s. Array_join (lit '', '') (toolNames m) = Inr s)"
    using False by (auto simp: formatMessage_def Let_def bindE_Inr_iff)
  then show ?thesis by (simp only: Array_join_returns_iff)
qed

lemma formatMessage_TypeError: "formatMessage m = Inl e \<Longrightarrow> e = TypeError"
  by (auto simp: formatMessage_def Let_def Array_join_def bindE_Inl_iff
           dest: ToString_TypeError split: if_splits)

lemma formatChunkText_returns_iff:
  "(\<exists>out. formatChunkText ms = Inr out) \<longleftrightarrow>
   (\<forall>m \<in> set ms. \<forall>n \<in> set (toolNames m). \<exists>s. ToString n = Inr s)"
proof -
  have "(\<exists>out. formatChunkText ms = Inr out) \<longleftrightarrow> (\<exists>rs. mapE formatMessage ms = Inr rs)"
    by (auto simp: formatChunkText_def bindE_Inr_iff)
  then show ?thesis
    by (simp only: mapE_returns_iff formatMessage_returns_iff)
qed

lemma formatChunkText_TypeError: "formatChunkText ms = Inl e \<Longrightarrow> e = TypeError"
  by (auto simp: formatChunkText_def bindE_Inl_iff dest!: mapE_Inl formatMessage_TypeError)

lemma formatChunkText_length: "formatChunkText ms = Inr out \<Longrightarrow> length out \<le> 3000"
  by (auto simp: formatChunkText_def bindE_Inr_iff MAX_CHUNK_TEXT_def)

subsection \<open>The turn-grouping loop\<close>

lemma groupLoop_concat:
  "groupLoop turns cur ms = (ts', cur') \<Longrightarrow> concat ts' @ cur' = concat turns @ cur @ ms"
  by (induction ms arbitrary: turns cur) (auto split: if_splits)

lemma groupLoop_nonempty_cur:
  "groupLoop turns cur ms = (ts', cur') \<Longrightarrow> cur \<noteq> [] \<or> ms \<noteq> [] \<Longrightarrow> cur' \<noteq> []"
  by (induction ms arbitrary: turns cur) (auto split: if_splits)

lemma turnsOk_snoc:
  "turnsOk ts \<Longrightarrow> cur \<noteq> [] \<Longrightarrow> \<forall>m \<in> set (tl cur). role m \<noteq> JStr (lit ''user'') \<Longrightarrow>
   (ts \<noteq> [] \<Longrightarrow> role (hd cur) = JStr (lit ''user'')) \<Longrightarrow> turnsOk (ts @ [cur])"
  by (cases ts) (auto simp: turnsOk_def)

lemma groupLoop_inv:
  "groupLoop turns cur ms = (ts', cur') \<Longrightarrow> turnsOk turns \<Longrightarrow>
   \<forall>m \<in> set (tl cur). role m \<noteq> JStr (lit ''user'') \<Longrightarrow>
   (turns \<noteq> [] \<Longrightarrow> cur \<noteq> [] \<and> role (hd cur) = JStr (lit ''user'')) \<Longrightarrow>
   turnsOk ts' \<and> (\<forall>m \<in> set (tl cur'). role m \<noteq> JStr (lit ''user'')) \<and>
   (ts' \<noteq> [] \<longrightarrow> cur' \<noteq> [] \<and> role (hd cur') = JStr (lit ''user''))"
proof (induction ms arbitrary: turns cur)
  case Nil
  then show ?case by auto
next
  case (Cons m ms)
  show ?case
  proof (cases "role m = JStr (lit ''user'') \<and> length cur > 0")
    case True
    with Cons.prems have step: "groupLoop (turns @ [cur]) [m] ms = (ts', cur')" by simp
    have ok: "turnsOk (turns @ [cur])"
      using Cons.prems True by (intro turnsOk_snoc) auto
    show ?thesis
      using Cons.IH [OF step ok] True by simp
  next
    case False
    with Cons.prems have step: "groupLoop turns (cur @ [m]) ms = (ts', cur')" by auto
    have tl_ok: "\<forall>x \<in> set (tl (cur @ [m])). role x \<noteq> JStr (lit ''user'')"
      using Cons.prems False by (cases cur) auto
    have hd_ok: "turns \<noteq> [] \<Longrightarrow> cur @ [m] \<noteq> [] \<and> role (hd (cur @ [m])) = JStr (lit ''user'')"
      using Cons.prems by auto
    show ?thesis
      using Cons.IH [OF step Cons.prems(2) tl_ok hd_ok] by simp
  qed
qed

lemma groupLoop_length:
  "groupLoop turns cur ms = (ts', cur') \<Longrightarrow> cur \<noteq> [] \<Longrightarrow>
   length ts' = length turns + length (filter (\<lambda>m. role m = JStr (lit ''user'')) ms)"
  by (induction ms arbitrary: turns cur) (auto split: if_splits)

lemma groupTurns_concat: "concat (groupTurns msgs) = msgs"
proof -
  obtain ts cur where g: "groupLoop [] [] msgs = (ts, cur)" by (cases "groupLoop [] [] msgs")
  from groupLoop_concat [OF g] have "concat ts @ cur = msgs" by simp
  with g show ?thesis by (auto simp: groupTurns_def)
qed

lemma groupTurns_ok: "turnsOk (groupTurns msgs)"
proof -
  obtain ts cur where g: "groupLoop [] [] msgs = (ts, cur)" by (cases "groupLoop [] [] msgs")
  have e: "turnsOk []" by (simp add: turnsOk_def)
  from groupLoop_inv [OF g e] have
    inv: "turnsOk ts" "\<forall>m \<in> set (tl cur). role m \<noteq> JStr (lit ''user'')"
         "ts \<noteq> [] \<longrightarrow> cur \<noteq> [] \<and> role (hd cur) = JStr (lit ''user'')" by auto
  show ?thesis
  proof (cases "cur = []")
    case True
    with g inv show ?thesis by (simp add: groupTurns_def)
  next
    case False
    with inv have "turnsOk (ts @ [cur])" by (intro turnsOk_snoc) auto
    with g False show ?thesis by (simp add: groupTurns_def)
  qed
qed

lemma groupTurns_length:
  "length (groupTurns msgs) =
     (case msgs of [] \<Rightarrow> 0
      | m # rest \<Rightarrow> Suc (length (filter (\<lambda>m. role m = JStr (lit ''user'')) rest)))"
proof (cases msgs)
  case Nil
  then show ?thesis by (simp add: groupTurns_def)
next
  case (Cons m rest)
  obtain ts cur where g: "groupLoop [] [m] rest = (ts, cur)" by (cases "groupLoop [] [m] rest")
  from groupLoop_length [OF g] groupLoop_nonempty_cur [OF g] g Cons
  show ?thesis by (simp add: groupTurns_def)
qed

subsection \<open>The chunks\<close>

lemma makeChunk_Inr:
  "makeChunk idx ms = Inr c \<Longrightarrow>
     chunkIndex c = idx \<and> messages c = ms \<and> formatChunkText ms = Inr (chunkText c)"
  by (auto simp: makeChunk_def bindE_Inr_iff)

lemma makeChunk_returns_iff:
  "(\<exists>c. makeChunk idx ms = Inr c) \<longleftrightarrow> (\<exists>out. formatChunkText ms = Inr out)"
  by (auto simp: makeChunk_def bindE_Inr_iff)

lemma chunkLoop_eq:
  "chunkLoop turns i chunks =
     bindE (mapE (\<lambda>k. makeChunk (length chunks + k)
                          (concat (take CHUNK_SIZE (drop (i + k * CHUNK_SIZE) turns))))
                [0 ..< (length turns - i + (CHUNK_SIZE - 1)) div CHUNK_SIZE])
       (\<lambda>new. Inr (chunks @ new))"
proof (induction turns i chunks rule: chunkLoop.induct)
  case (1 turns i chunks)
  show ?case
  proof (cases "i < length turns")
    case False
    then show ?thesis by (simp add: chunkLoop.simps [of turns i chunks] CHUNK_SIZE_def)
  next
    case True
    let ?n = "(length turns - i + (CHUNK_SIZE - 1)) div CHUNK_SIZE"
    let ?first = "makeChunk (length chunks) (concat (take CHUNK_SIZE (drop i turns)))"
    have n: "(length turns - (i + CHUNK_SIZE) + (CHUNK_SIZE - 1)) div CHUNK_SIZE = ?n - 1" and pos: "0 < ?n"
      using True by (auto simp: CHUNK_SIZE_def)
    have upt: "[0 ..< ?n] = 0 # map Suc [0 ..< ?n - 1]"
      using pos by (metis One_nat_def Suc_pred map_Suc_upt upt_conv_Cons)
    have mapE_Suc: "mapE f (map Suc ks) = mapE (\<lambda>k. f (Suc k)) ks" for f :: "nat \<Rightarrow> js_error + Chunk" and ks
      by (induction ks) simp_all
    show ?thesis
    proof (cases ?first)
      case (Inl e)
      then show ?thesis
        using True unfolding upt by (simp add: chunkLoop.simps [of turns i chunks])
    next
      case (Inr chunk)
      have "chunkLoop turns i chunks = chunkLoop turns (i + CHUNK_SIZE) (chunks @ [chunk])"
        using True Inr by (simp add: chunkLoop.simps [of turns i chunks])
      also have "\<dots> = bindE (mapE (\<lambda>k. makeChunk (length chunks + k)
                          (concat (take CHUNK_SIZE (drop (i + k * CHUNK_SIZE) turns)))) [0 ..< ?n])
                       (\<lambda>new. Inr (chunks @ new))"
        unfolding "1.IH" [OF True Inr] n upt
        by (cases "mapE (\<lambda>k. makeChunk (Suc (length chunks + k))
                     (concat (take CHUNK_SIZE (drop (i + CHUNK_SIZE + k * CHUNK_SIZE) turns))))
                   [0 ..< ?n - 1]")
           (simp_all add: Inr mapE_Suc ac_simps)
      finally show ?thesis .
    qed
  qed
qed

lemma chunkSession_long:
  assumes "CHUNK_SIZE < length (groupTurns msgs)"
  shows "chunkSession msgs =
     mapE (\<lambda>k. makeChunk k (concat (take CHUNK_SIZE (drop (k * CHUNK_SIZE) (groupTurns msgs)))))
       [0 ..< (length (groupTurns msgs) + (CHUNK_SIZE - 1)) div CHUNK_SIZE]"
  using assms by (simp add: chunkSession_def Let_def chunkLoop_eq)

lemma chunkSession_short:
  assumes "length (groupTurns msgs) \<le> CHUNK_SIZE"
  shows "chunkSession msgs = bindE (makeChunk 0 msgs) (\<lambda>chunk. Inr [chunk])"
  using assms by (simp add: chunkSession_def Let_def groupTurns_concat)

lemma groups_cover:
  "(\<Union>k < (length turns + (CHUNK_SIZE - 1)) div CHUNK_SIZE.
      set (take CHUNK_SIZE (drop (k * CHUNK_SIZE) turns))) = set turns"
proof
  show "(\<Union>k < (length turns + (CHUNK_SIZE - 1)) div CHUNK_SIZE.
      set (take CHUNK_SIZE (drop (k * CHUNK_SIZE) turns))) \<subseteq> set turns"
    by (auto dest!: in_set_takeD in_set_dropD)
next
  show "set turns \<subseteq> (\<Union>k < (length turns + (CHUNK_SIZE - 1)) div CHUNK_SIZE.
      set (take CHUNK_SIZE (drop (k * CHUNK_SIZE) turns)))"
  proof
    fix t assume "t \<in> set turns"
    then obtain j where j: "j < length turns" and t: "t = turns ! j"
      by (auto simp: in_set_conv_nth)
    have k: "j div 5 < (length turns + 4) div 5" using j by arith
    have i: "j mod 5 < length (take 5 (drop (j div 5 * 5) turns))"
      using j by (simp add: min_def) arith
    have "take 5 (drop (j div 5 * 5) turns) ! (j mod 5) = turns ! j"
      using j by simp
    with i have "t \<in> set (take 5 (drop (j div 5 * 5) turns))"
      unfolding t by (metis nth_mem)
    with k show "t \<in> (\<Union>k < (length turns + (CHUNK_SIZE - 1)) div CHUNK_SIZE.
      set (take CHUNK_SIZE (drop (k * CHUNK_SIZE) turns)))"
      by (auto simp: CHUNK_SIZE_def)
  qed
qed

lemma chunkSession_returns_iff:
  "(\<exists>cs. chunkSession msgs = Inr cs) \<longleftrightarrow>
   (\<forall>m \<in> set msgs. \<forall>n \<in> set (toolNames m). \<exists>s. ToString n = Inr s)"
proof (cases "length (groupTurns msgs) \<le> CHUNK_SIZE")
  case True
  have "(\<exists>cs. chunkSession msgs = Inr cs) \<longleftrightarrow> (\<exists>c. makeChunk 0 msgs = Inr c)"
    unfolding chunkSession_short [OF True] by (auto simp: bindE_Inr_iff)
  then show ?thesis
    by (simp only: makeChunk_returns_iff formatChunkText_returns_iff)
next
  case False
  then have long: "CHUNK_SIZE < length (groupTurns msgs)" by simp
  let ?n = "(length (groupTurns msgs) + (CHUNK_SIZE - 1)) div CHUNK_SIZE"
  let ?g = "\<lambda>k. take CHUNK_SIZE (drop (k * CHUNK_SIZE) (groupTurns msgs))"
  have "(\<exists>cs. chunkSession msgs = Inr cs) \<longleftrightarrow>
        (\<forall>k < ?n. \<forall>m \<in> set (concat (?g k)). \<forall>n \<in> set (toolNames m). \<exists>s. ToString n = Inr s)"
    unfolding chunkSession_long [OF long] mapE_returns_iff makeChunk_returns_iff
      formatChunkText_returns_iff by auto
  also have "\<dots> \<longleftrightarrow> (\<forall>t \<in> (\<Union>k < ?n. set (?g k)). \<forall>m \<in> set t. \<forall>n \<in> set (toolNames m). \<exists>s. ToString n = Inr s)"
    by auto
  also have "\<dots> \<longleftrightarrow> (\<forall>m \<in> set (concat (groupTurns msgs)). \<forall>n \<in> set (toolNames m). \<exists>s. ToString n = Inr s)"
    unfolding groups_cover by auto
  finally show ?thesis unfolding groupTurns_concat .
qed

lemma chunkSession_TypeError: "chunkSession msgs = Inl e \<Longrightarrow> e = TypeError"
proof (cases "length (groupTurns msgs) \<le> CHUNK_SIZE")
  case True
  assume "chunkSession msgs = Inl e"
  then show ?thesis
    unfolding chunkSession_short [OF True]
    by (auto simp: bindE_Inl_iff makeChunk_def dest: formatChunkText_TypeError)
next
  case False
  then have long: "CHUNK_SIZE < length (groupTurns msgs)" by simp
  assume "chunkSession msgs = Inl e"
  then show ?thesis
    unfolding chunkSession_long [OF long]
    by (auto simp: bindE_Inl_iff makeChunk_def dest!: mapE_Inl formatChunkText_TypeError)
qed

text \<open>
  Claim C1. Whenever \<open>chunkSession\<close> returns, with \<open>N\<close> the number of turns of the
  message list: if \<open>N \<le> CHUNK_SIZE\<close> (which is 5), it returns exactly one chunk, holding
  the messages of all \<open>N\<close> turns; if \<open>N > CHUNK_SIZE\<close> it returns \<open>ceil (N / CHUNK_SIZE)\<close>
  chunks (the least count whose fivefold reaches \<open>N\<close>), chunk \<open>k\<close> holds the turns
  \<open>5k, ..., 5k+4\<close> in order, every chunk but the last holds exactly \<open>CHUNK_SIZE\<close> turns
  and the last at least one; the \<open>chunkIndex\<close> values are \<open>0, ..., count - 1\<close> in order.
  It returns exactly when every tool name of every message has a conversion to a string,
  in particular whenever the tool names are strings, as \<open>toolNames: string[]\<close> declares
  them; otherwise building the text of a chunk throws a TypeError.
\<close>

theorem chunkSession_chunk_counts:
  "(\<forall>cs. chunkSession msgs = Inr cs \<longrightarrow>
      (length (groupTurns msgs) \<le> CHUNK_SIZE \<longrightarrow>
         length cs = 1 \<and> messages (cs ! 0) = concat (groupTurns msgs)) \<and>
      (CHUNK_SIZE < length (groupTurns msgs) \<longrightarrow>
         length cs = (length (groupTurns msgs) + (CHUNK_SIZE - 1)) div CHUNK_SIZE \<and>
         CHUNK_SIZE * (length cs - 1) < length (groupTurns msgs) \<and>
         length (groupTurns msgs) \<le> CHUNK_SIZE * length cs \<and>
         (\<forall>k < length cs.
            messages (cs ! k) =
              concat (take CHUNK_SIZE (drop (k * CHUNK_SIZE) (groupTurns msgs))) \<and>
            0 < length (take CHUNK_SIZE (drop (k * CHUNK_SIZE) (groupTurns msgs))) \<and>
            (Suc k < length cs \<longrightarrow>
               length (take CHUNK_SIZE (drop (k * CHUNK_SIZE) (groupTurns msgs))) = CHUNK_SIZE))) \<and>
      map chunkIndex cs = [0 ..< length cs]) \<and>
   ((\<exists>cs. chunkSession msgs = Inr cs) \<longleftrightarrow>
      (\<forall>m \<in> set msgs. \<forall>n \<in> set (toolNames m). \<exists>s. ToString n = Inr s)) \<and>
   ((\<forall>m \<in> set msgs. \<forall>n \<in> set (toolNames m). \<exists>s. n = JStr s) \<longrightarrow>
      (\<exists>cs. chunkSession msgs = Inr cs)) \<and>
   (\<forall>e. chunkSession msgs = Inl e \<longrightarrow> e = TypeError) \<and>
   CHUNK_SIZE = 5"
proof -
  have c5: "CHUNK_SIZE = 5" by (simp add: CHUNK_SIZE_def)
  have strings: "\<exists>cs. chunkSession msgs = Inr cs"
    if "\<forall>m \<in> set msgs. \<forall>n \<in> set (toolNames m). \<exists>s. n = JStr s"
  proof -
    have "\<exists>s. ToString n = Inr s" if "m \<in> set msgs" "n \<in> set (toolNames m)" for m n
    proof -
      from \<open>\<forall>m \<in> set msgs. \<forall>n \<in> set (toolNames m). \<exists>s. n = JStr s\<close> that
      obtain s where "n = JStr s" by blast
      then show ?thesis by simp
    qed
    then show ?thesis unfolding chunkSession_returns_iff by blast
  qed
  have shape: "(length (groupTurns msgs) \<le> CHUNK_SIZE \<longrightarrow>
         length cs = 1 \<and> messages (cs ! 0) = concat (groupTurns msgs)) \<and>
      (CHUNK_SIZE < length (groupTurns msgs) \<longrightarrow>
         length cs = (length (groupTurns msgs) + (CHUNK_SIZE - 1)) div CHUNK_SIZE \<and>
         CHUNK_SIZE * (length cs - 1) < length (groupTurns msgs) \<and>
         length (groupTurns msgs) \<le> CHUNK_SIZE * length cs \<and>
         (\<forall>k < length cs.
            messages (cs ! k) =
              concat (take CHUNK_SIZE (drop (k * CHUNK_SIZE) (groupTurns msgs))) \<and>
            0 < length (take CHUNK_SIZE (drop (k * CHUNK_SIZE) (groupTurns msgs))) \<and>
            (Suc k < length cs \<longrightarrow>
               length (take CHUNK_SIZE (drop (k * CHUNK_SIZE) (groupTurns msgs))) = CHUNK_SIZE))) \<and>
      map chunkIndex cs = [0 ..< length cs]"
    if ret: "chunkSession msgs = Inr cs" for cs
  proof (cases "length (groupTurns msgs) \<le> CHUNK_SIZE")
    case True
    from ret obtain c where c: "makeChunk 0 msgs = Inr c" and cs: "cs = [c]"
      unfolding chunkSession_short [OF True] by (auto simp: bindE_Inr_iff)
    from makeChunk_Inr [OF c] show ?thesis
      using True by (simp add: cs groupTurns_concat)
  next
    case False
    then have long: "CHUNK_SIZE < length (groupTurns msgs)" by simp
    define N where "N = length (groupTurns msgs)"
    define n where "n = (N + (CHUNK_SIZE - 1)) div CHUNK_SIZE"
    have all2: "list_all2 (\<lambda>k c. makeChunk k
         (concat (take CHUNK_SIZE (drop (k * CHUNK_SIZE) (groupTurns msgs)))) = Inr c) [0 ..< n] cs"
      using ret unfolding chunkSession_long [OF long] mapE_Inr_iff n_def N_def .
    from list_all2_lengthD [OF all2] have len: "length cs = n" by simp
    have nth: "makeChunk k (concat (take CHUNK_SIZE (drop (k * CHUNK_SIZE) (groupTurns msgs))))
          = Inr (cs ! k)" if "k < n" for k
      using list_all2_nthD [OF all2, of k] that by simp
    have idx: "map chunkIndex cs = [0 ..< n]"
    proof (rule nth_equalityI)
      show "length (map chunkIndex cs) = length [0 ..< n]" by (simp add: len)
    next
      fix k assume "k < length (map chunkIndex cs)"
      then have k: "k < n" by (simp add: len)
      from makeChunk_Inr [OF nth [OF k]] k show "map chunkIndex cs ! k = [0 ..< n] ! k"
        by (simp add: len)
    qed
    have N5: "5 < N" using long by (simp add: N_def CHUNK_SIZE_def)
    have n5: "n = (N + 4) div 5" by (simp add: n_def CHUNK_SIZE_def)
    have b1: "5 * (n - 1) < N" and b2: "N \<le> 5 * n"
      using N5 unfolding n5 by arith+
    have each: "messages (cs ! k) =
             concat (take CHUNK_SIZE (drop (k * CHUNK_SIZE) (groupTurns msgs))) \<and>
           0 < length (take CHUNK_SIZE (drop (k * CHUNK_SIZE) (groupTurns msgs))) \<and>
           (Suc k < n \<longrightarrow>
              length (take CHUNK_SIZE (drop (k * CHUNK_SIZE) (groupTurns msgs))) = CHUNK_SIZE)"
      if k: "k < n" for k
    proof -
      have m: "messages (cs ! k) =
             concat (take CHUNK_SIZE (drop (k * CHUNK_SIZE) (groupTurns msgs)))"
        using makeChunk_Inr [OF nth [OF k]] by simp
      have p: "k * 5 < N"
        using k unfolding n5 by arith
      have f: "Suc k < n \<Longrightarrow> k * 5 + 5 \<le> N"
        unfolding n5 by arith
      have l: "length (take CHUNK_SIZE (drop (k * CHUNK_SIZE) (groupTurns msgs))) = min 5 (N - k * 5)"
        by (simp add: N_def CHUNK_SIZE_def)
      have l0: "0 < min 5 (N - k * 5)" using p by arith
      have l5: "Suc k < n \<longrightarrow> min 5 (N - k * 5) = CHUNK_SIZE"
        using f unfolding CHUNK_SIZE_def by arith
      show ?thesis
        unfolding l using m l0 l5 by (simp only: simp_thms)
    qed
    show ?thesis
      unfolding len
      using long each b1 b2 idx by (simp add: n_def [symmetric] N_def [symmetric] c5)
  qed
  show ?thesis
    using shape strings chunkSession_returns_iff [of msgs] chunkSession_TypeError [of msgs] c5
    by (intro conjI allI impI) blast+
qed

theorem chunkSession_chunk_counts_witness:
  "(\<exists>cs. chunkSession [userMsg, assistantMsg] = Inr cs \<and>
      length (groupTurns [userMsg, assistantMsg]) \<le> CHUNK_SIZE \<and>
      length cs = 1 \<and> messages (cs ! 0) = [userMsg, assistantMsg]) \<and>
   (\<exists>cs. chunkSession [userMsg, userMsg, userMsg, userMsg, userMsg, userMsg, assistantMsg] = Inr cs \<and>
      CHUNK_SIZE < length (groupTurns [userMsg, userMsg, userMsg, userMsg, userMsg, userMsg, assistantMsg]) \<and>
      length cs = 2 \<and>
      messages (cs ! 0) = [userMsg, userMsg, userMsg, userMsg, userMsg] \<and>
      messages (cs ! 1) = [userMsg, assistantMsg] \<and>
      map chunkIndex cs = [0, 1]) \<and>
   chunkSession [oddMsg] = Inl TypeError"
proof -
  have u: "role userMsg = JStr (lit ''user'')"
    by (simp add: userMsg_def)
  have a: "role assistantMsg \<noteq> JStr (lit ''user'')"
    by (simp add: assistantMsg_def lit_def)
  have g2: "groupTurns [userMsg, assistantMsg] = [[userMsg, assistantMsg]]"
    by (simp add: groupTurns_def u a)
  have g7: "groupTurns [userMsg, userMsg, userMsg, userMsg, userMsg, userMsg, assistantMsg]
        = [[userMsg], [userMsg], [userMsg], [userMsg], [userMsg], [userMsg, assistantMsg]]"
    by (simp add: groupTurns_def u a)
  have up: "[0 ..< 2] = [0, Suc 0]" by (simp add: upt_rec)
  have short: "length (groupTurns [userMsg, assistantMsg]) \<le> CHUNK_SIZE"
    unfolding g2 by (simp add: CHUNK_SIZE_def)
  have long: "CHUNK_SIZE < length (groupTurns [userMsg, userMsg, userMsg, userMsg, userMsg, userMsg, assistantMsg])"
    unfolding g7 by (simp add: CHUNK_SIZE_def)
  note s = chunkSession_chunk_counts [of "[userMsg, assistantMsg]"]
  note l = chunkSession_chunk_counts [of "[userMsg, userMsg, userMsg, userMsg, userMsg, userMsg, assistantMsg]"]
  note o = chunkSession_chunk_counts [of "[oddMsg]"]
  have str2: "\<forall>m \<in> set [userMsg, assistantMsg]. \<forall>n \<in> set (toolNames m). \<exists>s. n = JStr s"
    by (simp add: userMsg_def assistantMsg_def)
  have str7: "\<forall>m \<in> set [userMsg, userMsg, userMsg, userMsg, userMsg, userMsg, assistantMsg].
      \<forall>n \<in> set (toolNames m). \<exists>s. n = JStr s"
    by (simp add: userMsg_def assistantMsg_def)
  from s str2 obtain cs2 where r2: "chunkSession [userMsg, assistantMsg] = Inr cs2" by blast
  from l str7 obtain cs7 where
    r7: "chunkSession [userMsg, userMsg, userMsg, userMsg, userMsg, userMsg, assistantMsg] = Inr cs7"
    by blast
  have s1: "length cs2 = 1 \<and> messages (cs2 ! 0) = [userMsg, assistantMsg]"
    using s r2 short unfolding g2 by simp
  have l2: "length cs7 = 2"
    using l r7 long unfolding g7 by (simp add: CHUNK_SIZE_def)
  have k0: "messages (cs7 ! 0) = [userMsg, userMsg, userMsg, userMsg, userMsg]"
    using l r7 long l2 unfolding g7 by (simp add: CHUNK_SIZE_def)
  have k1: "messages (cs7 ! 1) = [userMsg, assistantMsg]"
    using l r7 long l2 unfolding g7 by (simp add: CHUNK_SIZE_def)
  have ix: "map chunkIndex cs7 = [0, 1]"
    using l r7 l2 up by simp
  have "\<not> (\<forall>m \<in> set [oddMsg]. \<forall>n \<in> set (toolNames m). \<exists>s. ToString n = Inr s)"
    by (simp add: oddMsg_def)
  with o have "\<not> (\<exists>cs. chunkSession [oddMsg] = Inr cs)" by blast
  with o have odd: "chunkSession [oddMsg] = Inl TypeError"
    by (cases "chunkSession [oddMsg]") auto
  have A: "\<exists>cs. chunkSession [userMsg, assistantMsg] = Inr cs \<and>
      length (groupTurns [userMsg, assistantMsg]) \<le> CHUNK_SIZE \<and>
      length cs = 1 \<and> messages (cs ! 0) = [userMsg, assistantMsg]"
    using r2 short s1 by (intro exI [of _ cs2]) (simp only: simp_thms)
  have B: "\<exists>cs. chunkSession [userMsg, userMsg, userMsg, userMsg, userMsg, userMsg, assistantMsg] = Inr cs \<and>
      CHUNK_SIZE < length (groupTurns [userMsg, userMsg, userMsg, userMsg, userMsg, userMsg, assistantMsg]) \<and>
      length cs = 2 \<and>
      messages (cs ! 0) = [userMsg, userMsg, userMsg, userMsg, userMsg] \<and>
      messages (cs ! 1) = [userMsg, assistantMsg] \<and>
      map chunkIndex cs = [0, 1]"
    using r7 long l2 k0 k1 ix by (intro exI [of _ cs7]) (simp only: simp_thms)
  from A B odd show ?thesis by (simp only: simp_thms)
qed

text \<open>
  Claim C2. The turns that \<open>chunkSession\<close> groups the messages into partition the
  message list: concatenated in order they give back the list (so every message is in
  exactly one turn, with no gap and no overlap), no turn is empty, a turn holds no user
  message after its first message, and every turn after the first starts with a user
  message: a new turn begins exactly at each user message that follows a non-empty
  current turn. Hence the number of turns is one more than the number of user messages
  after the first message.
\<close>

theorem groupTurns_partition:
  "concat (groupTurns msgs) = msgs \<and>
   (\<forall>t \<in> set (groupTurns msgs). t \<noteq> [] \<and> (\<forall>m \<in> set (tl t). role m \<noteq> JStr (lit ''user''))) \<and>
   (\<forall>t \<in> set (tl (groupTurns msgs)). role (hd t) = JStr (lit ''user'')) \<and>
   length (groupTurns msgs) =
     (case msgs of [] \<Rightarrow> 0
      | m # rest \<Rightarrow> Suc (length (filter (\<lambda>m. role m = JStr (lit ''user'')) rest)))"
proof -
  have "turnsOk (groupTurns msgs)" by (rule groupTurns_ok)
  then show ?thesis
    unfolding turnsOk_def by (simp only: groupTurns_concat groupTurns_length simp_thms)
qed


theorem groupTurns_partition_witness:
  "groupTurns [assistantMsg, userMsg, assistantMsg, assistantMsg, userMsg]
     = [[assistantMsg], [userMsg, assistantMsg, assistantMsg], [userMsg]] \<and>
   concat (groupTurns [assistantMsg, userMsg, assistantMsg, assistantMsg, userMsg])
     = [assistantMsg, userMsg, assistantMsg, assistantMsg, userMsg] \<and>
   role (hd (groupTurns [assistantMsg, userMsg, assistantMsg, assistantMsg, userMsg] ! 1))
     = JStr (lit ''user'') \<and>
   length (groupTurns [assistantMsg, userMsg, assistantMsg, assistantMsg, userMsg]) = 3"
proof -
  have u: "role userMsg = JStr (lit ''user'')"
    by (simp add: userMsg_def)
  have a: "role assistantMsg \<noteq> JStr (lit ''user'')"
    by (simp add: assistantMsg_def lit_def)
  have g: "groupTurns [assistantMsg, userMsg, assistantMsg, assistantMsg, userMsg]
     = [[assistantMsg], [userMsg, assistantMsg, assistantMsg], [userMsg]]"
    by (simp add: groupTurns_def u a)
  note p = groupTurns_partition [of "[assistantMsg, userMsg, assistantMsg, assistantMsg, userMsg]"]
  have c: "concat (groupTurns [assistantMsg, userMsg, assistantMsg, assistantMsg, userMsg])
     = [assistantMsg, userMsg, assistantMsg, assistantMsg, userMsg]"
    using p by blast
  have h: "role (hd (groupTurns [assistantMsg, userMsg, assistantMsg, assistantMsg, userMsg] ! 1))
     = JStr (lit ''user'')"
    using p unfolding g by simp
  have n: "length (groupTurns [assistantMsg, userMsg, assistantMsg, assistantMsg, userMsg]) = 3"
    using p by (simp add: u a)
  show ?thesis using g c h n by (simp only: simp_thms)
qed

text \<open>
  Claim C8. \<open>formatChunkText\<close> renders each message as \<open>User:\<close> or \<open>Assistant:\<close>, a
  space, the first 600 characters of its content and, exactly when the message has tool
  names, the suffix \<open> [Tools: \<close>, the names with \<open>, \<close> between each two, \<open>]\<close>; it puts
  a newline between each two renderings and then cuts the assembled text to
  \<open>MAX_CHUNK_TEXT = 3000\<close> characters, so that a result is never longer than 3000. This
  holds for tool names that are strings and, with each name converted to a string, for
  all tool names that have a conversion; when a tool name has none, the function throws a
  TypeError.
\<close>

theorem formatChunkText_rendering:
  "(\<forall>names. (\<forall>m \<in> set ms. toolNames m = map JStr (names m)) \<longrightarrow>
      formatChunkText ms =
        Inr (take 3000 (spec_joined (lit [CHR 0x0A]) (map (\<lambda>m. spec_rendering m (names m)) ms)))) \<and>
   (\<forall>names. (\<forall>m \<in> set ms. elementStrings (toolNames m) = Inr (names m)) \<longrightarrow>
      formatChunkText ms =
        Inr (take 3000 (spec_joined (lit [CHR 0x0A]) (map (\<lambda>m. spec_rendering m (names m)) ms)))) \<and>
   (\<forall>out. formatChunkText ms = Inr out \<longrightarrow> length out \<le> 3000) \<and>
   ((\<exists>out. formatChunkText ms = Inr out) \<longleftrightarrow>
      (\<forall>m \<in> set ms. \<forall>n \<in> set (toolNames m). \<exists>s. ToString n = Inr s)) \<and>
   (\<forall>e. formatChunkText ms = Inl e \<longrightarrow> e = TypeError) \<and>
   MAX_CHUNK_TEXT = 3000"
proof -
  have general: "formatChunkText ms =
        Inr (take 3000 (spec_joined (lit [CHR 0x0A]) (map (\<lambda>m. spec_rendering m (names m)) ms)))"
    if "\<forall>m \<in> set ms. elementStrings (toolNames m) = Inr (names m)" for names
  proof -
    have "mapE formatMessage ms = Inr (map (\<lambda>m. spec_rendering m (names m)) ms)"
      using that by (intro mapE_map formatMessage_general) simp
    then show ?thesis
      by (simp add: formatChunkText_def js_join_spec MAX_CHUNK_TEXT_def)
  qed
  have strings: "formatChunkText ms =
        Inr (take 3000 (spec_joined (lit [CHR 0x0A]) (map (\<lambda>m. spec_rendering m (names m)) ms)))"
    if "\<forall>m \<in> set ms. toolNames m = map JStr (names m)" for names
    using that by (intro general) (simp add: elementStrings_strings)
  show ?thesis
    using general strings formatChunkText_length [of ms] formatChunkText_returns_iff [of ms]
      formatChunkText_TypeError [of ms]
    by (intro conjI allI impI) (blast, blast, blast, blast, blast, simp add: MAX_CHUNK_TEXT_def)
qed

theorem formatChunkText_rendering_witness:
  "formatChunkText [userMsg, toolsMsg] =
     Inr (lit ''User: list the files'' @ lit [CHR 0x0A] @ lit ''Assistant: both done [Tools: Bash, Read]'') \<and>
   formatChunkText [longMsg] = Inr (lit ''User: '' @ replicate 600 0x61) \<and>
   (\<exists>out. formatChunkText (replicate 6 longMsg) = Inr out \<and> length out = 3000) \<and>
   formatChunkText [userMsg, oddMsg] = Inl TypeError"
proof -
  have six: "replicate 6 longMsg = [longMsg, longMsg, longMsg, longMsg, longMsg, longMsg]"
    by (simp add: eval_nat_numeral)
  have ln: "\<forall>m \<in> set [longMsg]. toolNames m = map JStr ((\<lambda>m. []) m)"
    "\<forall>m \<in> set (replicate 6 longMsg). toolNames m = map JStr ((\<lambda>m. []) m)"
    by (simp_all add: longMsg_def)
  have l1: "formatChunkText [longMsg] = Inr (lit ''User: '' @ replicate 600 0x61)"
    using formatChunkText_rendering [of "[longMsg]", THEN conjunct1, THEN spec, of "\<lambda>m. []",
        THEN mp, OF ln(1)]
    by (simp add: spec_joined_def spec_rendering_def longMsg_def lit_def)
  have l6: "\<exists>out. formatChunkText (replicate 6 longMsg) = Inr out \<and> length out = 3000"
    using formatChunkText_rendering [of "replicate 6 longMsg", THEN conjunct1, THEN spec,
        of "\<lambda>m. []", THEN mp, OF ln(2)]
    unfolding six by (simp add: spec_joined_def spec_rendering_def longMsg_def lit_def)
  define names where "names = (\<lambda>m. if m = toolsMsg then [lit ''Bash'', lit ''Read''] else [])"
  have ne: "userMsg \<noteq> toolsMsg"
    by (simp add: userMsg_def toolsMsg_def lit_def)
  have n: "\<forall>m \<in> set [userMsg, toolsMsg]. toolNames m = map JStr (names m)"
    using ne by (simp add: names_def) (simp add: userMsg_def toolsMsg_def)
  have r: "spec_joined (lit [CHR 0x0A]) (map (\<lambda>m. spec_rendering m (names m)) [userMsg, toolsMsg])
        = lit ''User: list the files'' @ lit [CHR 0x0A] @ lit ''Assistant: both done [Tools: Bash, Read]''"
    using ne by (simp add: names_def spec_joined_def spec_rendering_def)
      (simp add: userMsg_def toolsMsg_def lit_def)
  have len: "length (lit ''User: list the files'' @ lit [CHR 0x0A] @ lit ''Assistant: both done [Tools: Bash, Read]'') \<le> 3000"
    by (simp add: lit_def)
  note T = formatChunkText_rendering [of "[userMsg, toolsMsg]"]
  have good: "formatChunkText [userMsg, toolsMsg] =
     Inr (lit ''User: list the files'' @ lit [CHR 0x0A] @ lit ''Assistant: both done [Tools: Bash, Read]'')"
    using T [THEN conjunct1, THEN spec, of names, THEN mp, OF n] len unfolding r by (simp only: take_all)
  note O = formatChunkText_rendering [of "[userMsg, oddMsg]"]
  have "\<not> (\<forall>m \<in> set [userMsg, oddMsg]. \<forall>n \<in> set (toolNames m). \<exists>s. ToString n = Inr s)"
    by (simp add: oddMsg_def)
  with O have "\<not> (\<exists>out. formatChunkText [userMsg, oddMsg] = Inr out)" by blast
  with O have bad: "formatChunkText [userMsg, oddMsg] = Inl TypeError"
    by (cases "formatChunkText [userMsg, oddMsg]") auto
  from good l1 l6 bad show ?thesis by (simp only: simp_thms)
qed

section \<open>Properties of the adapters\<close>

text \<open>
  Claim C6. \<open>embedText\<close> raises whenever the endpoint's call fails, whenever the
  response has a non-success status (the error names the status), and whenever the
  response body has no \<open>embedding\<close> field; it returns the array in the \<open>embedding\<close> field
  of a successful response; and whatever it returns is the \<open>embedding\<close> field of a
  successful response, never a value of its own.
\<close>

theorem embedText_propagates:
  "(\<forall>e. fetch OLLAMA_EMBED_URL (embedRequest text) = Inl e \<longrightarrow> embedText fetch text = Inl e) \<and>
   (\<forall>r. fetch OLLAMA_EMBED_URL (embedRequest text) = Inr r \<and> \<not> ok r \<longrightarrow>
        embedText fetch text = Inl (Error (lit ''Ollama error: '' @ decimal (status r)))) \<and>
   (\<forall>r kvs. fetch OLLAMA_EMBED_URL (embedRequest text) = Inr r \<and> ok r \<and>
        json r = Inr (JObj kvs) \<and> map_of kvs (lit ''embedding'') = None \<longrightarrow>
        embedText fetch text = Inl (Error (lit ''No embedding in response''))) \<and>
   (\<forall>r kvs xs. fetch OLLAMA_EMBED_URL (embedRequest text) = Inr r \<and> ok r \<and>
        json r = Inr (JObj kvs) \<and> map_of kvs (lit ''embedding'') = Some (JArr xs) \<longrightarrow>
        embedText fetch text = Inr (JArr xs)) \<and>
   (\<forall>v. embedText fetch text = Inr v \<longleftrightarrow>
        (\<exists>r data. fetch OLLAMA_EMBED_URL (embedRequest text) = Inr r \<and> ok r \<and>
           json r = Inr data \<and> get_prop data (lit ''embedding'') = Inr v \<and> truthy v))"
proof (intro conjI allI impI)
  fix v
  show "embedText fetch text = Inr v \<longleftrightarrow>
        (\<exists>r data. fetch OLLAMA_EMBED_URL (embedRequest text) = Inr r \<and> ok r \<and>
           json r = Inr data \<and> get_prop data (lit ''embedding'') = Inr v \<and> truthy v)"
    by (auto simp: embedText_def bindE_def split: sum.splits if_splits)
qed (auto simp: embedText_def bindE_def)

theorem embedText_propagates_witness:
  "embedText vectorFetch (lit ''a summary'') = Inr (JArr [JNum (lit ''0.25''), JNum (lit ''-1'')]) \<and>
   embedText brokenFetch (lit ''a summary'') = Inl (Error (lit ''Ollama error: 500''))"
proof -
  have v: "vectorFetch OLLAMA_EMBED_URL (embedRequest (lit ''a summary'')) =
        Inr \<lparr> ok = True, status = 200,
           json = Inr (JObj [(lit ''embedding'', JArr [JNum (lit ''0.25''), JNum (lit ''-1'')])]) \<rparr> \<and>
      ok \<lparr> ok = True, status = 200,
           json = Inr (JObj [(lit ''embedding'', JArr [JNum (lit ''0.25''), JNum (lit ''-1'')])]) \<rparr> \<and>
      json \<lparr> ok = True, status = 200,
           json = Inr (JObj [(lit ''embedding'', JArr [JNum (lit ''0.25''), JNum (lit ''-1'')])]) \<rparr>
        = Inr (JObj [(lit ''embedding'', JArr [JNum (lit ''0.25''), JNum (lit ''-1'')])]) \<and>
      map_of [(lit ''embedding'', JArr [JNum (lit ''0.25''), JNum (lit ''-1'')])] (lit ''embedding'')
        = Some (JArr [JNum (lit ''0.25''), JNum (lit ''-1'')])"
    by (simp add: vectorFetch_def)
  have b: "brokenFetch OLLAMA_EMBED_URL (embedRequest (lit ''a summary'')) =
        Inr \<lparr> ok = False, status = 500, json = Inl SyntaxError \<rparr> \<and>
      \<not> ok \<lparr> ok = False, status = 500, json = Inl SyntaxError \<rparr>"
    by (simp add: brokenFetch_def)
  note good = embedText_propagates [of vectorFetch "lit ''a summary''",
      THEN conjunct2, THEN conjunct2, THEN conjunct2, THEN conjunct1, rule_format, OF v]
  note bad = embedText_propagates [of brokenFetch "lit ''a summary''",
      THEN conjunct2, THEN conjunct1, rule_format, OF b]
  have d: "decimal 500 = lit ''500''"
    by (simp add: decimal.simps [of 500] decimal.simps [of 50] decimal.simps [of 5] lit_def)
  from good bad show ?thesis by (simp add: d) (simp add: lit_def)
qed

text \<open>
  Claim C7. Whenever the summarization service raises, and more generally whenever
  anything in the \<open>try\<close> block raises, \<open>summarizeChunk\<close> returns the first 200
  characters of its input; it returns a string in every case and never raises.
\<close>

theorem summarizeChunk_never_raises:
  "(\<forall>e. failure (query (SUMMARY_PROMPT @ text)) = Some e \<longrightarrow>
        summarizeChunk query text = Inr (take 200 text)) \<and>
   (\<forall>e. summarizeTry query text = Inl e \<longrightarrow> summarizeChunk query text = Inr (take 200 text)) \<and>
   (\<exists>s. summarizeChunk query text = Inr s)"
proof (intro conjI allI impI)
  fix e assume f: "failure (query (SUMMARY_PROMPT @ text)) = Some e"
  have "\<exists>e'. summarizeTry query text = Inl e'"
    using f by (cases "foldE summaryMessage [] (yielded (query (SUMMARY_PROMPT @ text)))")
      (simp_all add: summarizeTry_def Let_def bindE_def)
  then show "summarizeChunk query text = Inr (take 200 text)"
    by (auto simp: summarizeChunk_def)
next
  fix e assume "summarizeTry query text = Inl e"
  then show "summarizeChunk query text = Inr (take 200 text)"
    by (simp add: summarizeChunk_def)
next
  show "\<exists>s. summarizeChunk query text = Inr s"
    by (cases "summarizeTry query text") (simp_all add: summarizeChunk_def)
qed

theorem summarizeChunk_never_raises_witness:
  "failure (failingQuery (SUMMARY_PROMPT @ lit ''User: list the files'')) = Some (Error (lit ''aborted'')) \<and>
   summarizeChunk failingQuery (lit ''User: list the files'') = Inr (lit ''User: list the files'')"
proof -
  have f: "failure (failingQuery (SUMMARY_PROMPT @ lit ''User: list the files''))
      = Some (Error (lit ''aborted''))"
    by (simp add: failingQuery_def)
  note s = summarizeChunk_never_raises [of failingQuery "lit ''User: list the files''",
      THEN conjunct1, rule_format, OF f]
  have t: "take 200 (lit ''User: list the files'') = lit ''User: list the files''"
    by (simp add: lit_def)
  from f s show ?thesis by (simp add: t)
qed

section \<open>Properties of the session-tools parser\<close>

lemma bindE_assoc: "bindE (bindE r f) g = bindE r (\<lambda>x. bindE (f x) g)"
  by (cases r) simp_all


lemma foldE_invariant:
  assumes all: "\<forall>x \<in> set xs. R x"
    and step: "\<And>s x s'. R x \<Longrightarrow> f s x = Inr s' \<Longrightarrow> P s \<Longrightarrow> P s'"
  shows "foldE f s xs = Inr s' \<Longrightarrow> P s \<Longrightarrow> P s'"
  using all
proof (induction xs arbitrary: s)
  case Nil
  then show ?case by simp
next
  case (Cons x xs)
  from Cons.prems(1) obtain s1 where s1: "f s x = Inr s1" and rest: "foldE f s1 xs = Inr s'"
    by (auto simp: bindE_Inr_iff)
  from Cons.prems(3) have rx: "R x" and rxs: "\<forall>y \<in> set xs. R y" by simp_all
  from step [OF rx s1 Cons.prems(2)] have "P s1" .
  from Cons.IH [OF rest this rxs] show ?case .
qed


subsection \<open>Items\<close>

lemma isItem_get_prop: "isItem ty item \<Longrightarrow> get_prop item f = Inr (field item f)"
  by (cases item) (simp_all add: isItem_def field_def)

lemma isItem_unique: "isItem ty item \<Longrightarrow> isItem ty' item \<Longrightarrow> ty' = ty"
  by (simp add: isItem_def)

lemma get_prop_field: "get_prop v f = Inr x \<Longrightarrow> field v f = x"
  by (simp add: field_def)

lemma tool_literals:
  "lit ''tool_result'' \<noteq> lit ''text''" "lit ''tool_use'' \<noteq> lit ''text''"
  "lit ''tool_use'' \<noteq> lit ''tool_result''" "lit ''user'' \<noteq> lit ''assistant''"
  by (simp_all add: lit_def)

subsection \<open>A tool-result item\<close>

lemma toolResultItem_unmatched:
  assumes "toolResultFor k item" and "Map_get (pendingToolCalls st) k = None"
  shows "toolResultItem st item = Inr st"
proof -
  from assms(1) have t: "isItem (lit ''tool_result'') item"
    and k: "js_or (field item (lit ''tool_use_id'')) (JStr []) = k"
    by (simp_all add: toolResultFor_def)
  show ?thesis
    using assms(2) k t [unfolded isItem_def]
    by (simp add: toolResultItem_def isItem_get_prop [OF t] Let_def)
qed

lemma toolResultItem_matched:
  assumes "toolResultFor k item" and "Map_get (pendingToolCalls st) k = Some a"
  shows "toolResultItem st item =
     bindE (ToString (js_or (field item (lit ''content'')) (JStr []))) (\<lambda>s.
       Inr (resolvePending st a k s (field item (lit ''is_error''))))"
proof -
  from assms(1) have t: "isItem (lit ''tool_result'') item"
    and k: "js_or (field item (lit ''tool_use_id'')) (JStr []) = k"
    by (simp_all add: toolResultFor_def)
  show ?thesis
    using assms(2) k t [unfolded isItem_def]
    by (simp add: toolResultItem_def isItem_get_prop [OF t] Let_def)
qed

lemma toolResultItem_cases:
  assumes run: "toolResultItem st item = Inr st'"
  shows "st' = st \<or>
    (\<exists>k a s. toolResultFor k item \<and> is_primitive k \<and> pendingToolCalls st k = Some a \<and>
       ToString (js_or (field item (lit ''content'')) (JStr [])) = Inr s \<and>
       st' = resolvePending st a k s (field item (lit ''is_error'')))"
proof (cases "isItem (lit ''tool_result'') item")
  case False
  show ?thesis
  proof (cases "get_prop item (lit ''type'')")
    case (Inl e)
    with run show ?thesis by (simp add: toolResultItem_def)
  next
    case (Inr ty)
    with False have "ty \<noteq> JStr (lit ''tool_result'')" by (simp add: isItem_def)
    with run Inr show ?thesis by (simp add: toolResultItem_def)
  qed
next
  case True
  let ?k = "js_or (field item (lit ''tool_use_id'')) (JStr [])"
  have isfor: "toolResultFor ?k item" using True by (simp add: toolResultFor_def)
  show ?thesis
  proof (cases "Map_get (pendingToolCalls st) ?k")
    case None
    from run toolResultItem_unmatched [OF isfor None] show ?thesis by simp
  next
    case (Some a)
    from Some have prim: "is_primitive ?k" and p: "pendingToolCalls st ?k = Some a"
      by (auto simp: Map_get_def split: if_splits)
    from run [unfolded toolResultItem_matched [OF isfor Some]] obtain s where
      "ToString (js_or (field item (lit ''content'')) (JStr [])) = Inr s"
      "st' = resolvePending st a ?k s (field item (lit ''is_error''))"
      unfolding bindE_Inr_iff by auto
    with prim p isfor show ?thesis by blast
  qed
qed

lemma resolvePending_simps:
  "is_primitive k \<Longrightarrow> pendingToolCalls (resolvePending st a k s ie) = (pendingToolCalls st)(k := None)"
  "heap (resolvePending st a k s ie) = (heap st)[a := (heap st ! a)
                  \<lparr> result := take 500 s, isError := js_or ie (JBool False) \<rparr>]"
  "parsed (resolvePending st a k s ie) = parsed st"
  by (simp_all add: resolvePending_def Map_delete_def)

lemma toolResultItem_frame_all:
  assumes run: "toolResultItem st item = Inr st'"
  shows "parsed st' = parsed st \<and> length (heap st') = length (heap st) \<and>
     (\<forall>k. \<not> toolResultFor k item \<longrightarrow> pendingToolCalls st' k = pendingToolCalls st k) \<and>
     (\<forall>k b. pendingToolCalls st' k = Some b \<longrightarrow> pendingToolCalls st k = Some b) \<and>
     (\<forall>b. (\<forall>k. toolResultFor k item \<longrightarrow> pendingToolCalls st k \<noteq> Some b) \<longrightarrow>
          heap st' ! b = heap st ! b)"
proof -
  from toolResultItem_cases [OF run] consider (same) "st' = st"
    | (res) k a s where "toolResultFor k item" "is_primitive k" "pendingToolCalls st k = Some a"
        "st' = resolvePending st a k s (field item (lit ''is_error''))"
    by blast
  then show ?thesis
  proof cases
    case same
    then show ?thesis by simp
  next
    case res
    have p: "pendingToolCalls st' = (pendingToolCalls st)(k := None)"
      unfolding res(4) by (rule resolvePending_simps(1) [OF res(2)])
    have h: "heap st' = (heap st)[a := (heap st ! a)
        \<lparr> result := take 500 s, isError := js_or (field item (lit ''is_error'')) (JBool False) \<rparr>]"
      unfolding res(4) by (rule resolvePending_simps(2))
    have m: "parsed st' = parsed st"
      unfolding res(4) by (rule resolvePending_simps(3))
    have f1: "pendingToolCalls st' k' = pendingToolCalls st k'" if "\<not> toolResultFor k' item" for k'
      using that res(1) unfolding p by (cases "k' = k") simp_all
    have f2: "pendingToolCalls st k' = Some b" if "pendingToolCalls st' k' = Some b" for k' b
      using that unfolding p by (cases "k' = k") simp_all
    have f3: "heap st' ! b = heap st ! b"
      if "\<forall>k. toolResultFor k item \<longrightarrow> pendingToolCalls st k \<noteq> Some b" for b
    proof -
      from that res(1) res(3) have "b \<noteq> a" by blast
      then show ?thesis unfolding h by simp
    qed
    have l: "length (heap st') = length (heap st)" unfolding h by simp
    from m l f1 f2 f3 show ?thesis by blast
  qed
qed



subsection \<open>A tool-use item\<close>

lemma registerCall_simps:
  "heap (registerCall st n i ident) = heap st @ [\<lparr> name = js_or n (JStr []), input = js_or i (JObj []),
                               result = [], isError = JBool False \<rparr>]"
  "parsed (registerCall st n i ident) = parsed st"
  "pendingToolCalls (registerCall st n i ident) =
     (if is_primitive (js_or ident (JStr []))
      then (pendingToolCalls st)(js_or ident (JStr []) \<mapsto> length (heap st))
      else pendingToolCalls st)"
  by (simp_all add: registerCall_def Map_set_def)

lemma toolUseItem_use:
  assumes "isItem (lit ''tool_use'') item"
  shows "toolUseItem (tp, calls, st) item =
     Inr (tp, calls @ [length (heap st)],
          registerCall st (field item (lit ''name'')) (field item (lit ''input''))
            (field item (lit ''id'')))"
  using assms [unfolded isItem_def]
  by (simp add: toolUseItem_def isItem_get_prop [OF assms] tool_literals)

lemma toolUseItem_other:
  assumes "\<not> isItem (lit ''tool_use'') item"
    and "toolUseItem (tp, calls, st) item = Inr (tp', calls', st')"
  shows "calls' = calls \<and> st' = st"
  using assms
  by (auto simp: toolUseItem_def isItem_def bindE_Inr_iff split: if_splits)

lemma toolUseItem_frame_all:
  assumes run: "toolUseItem (tp, calls, st) item = Inr (tp', calls', st')"
  shows "parsed st' = parsed st \<and>
     heap st' = heap st @ map cellOf (filter (isItem (lit ''tool_use'')) [item]) \<and>
     calls' = calls @ [length (heap st) ..< length (heap st')] \<and>
     (\<forall>k. \<not> toolUseFor k item \<longrightarrow> pendingToolCalls st' k = pendingToolCalls st k) \<and>
     (\<forall>k. toolUseFor k item \<and> is_primitive k \<longrightarrow> pendingToolCalls st' k = Some (length (heap st))) \<and>
     (\<forall>k b. pendingToolCalls st' k = Some b \<longrightarrow>
          pendingToolCalls st k = Some b \<or> (b = length (heap st) \<and> toolUseFor k item))"
proof (cases "isItem (lit ''tool_use'') item")
  case False
  from toolUseItem_other [OF False run] False show ?thesis
    by (simp add: toolUseFor_def)
next
  case True
  let ?k = "js_or (field item (lit ''id'')) (JStr [])"
  from run have c: "calls' = calls @ [length (heap st)]"
    and st': "st' = registerCall st (field item (lit ''name'')) (field item (lit ''input''))
            (field item (lit ''id''))"
    unfolding toolUseItem_use [OF True] by simp_all
  have h: "heap st' = heap st @ [cellOf item]"
    unfolding st' registerCall_simps cellOf_def ..
  have m: "parsed st' = parsed st"
    unfolding st' registerCall_simps ..
  have p: "pendingToolCalls st' =
     (if is_primitive ?k then (pendingToolCalls st)(?k \<mapsto> length (heap st))
      else pendingToolCalls st)"
    unfolding st' registerCall_simps ..
  have isfor: "toolUseFor k item \<longleftrightarrow> k = ?k" for k
    using True by (auto simp: toolUseFor_def)
  have f1: "pendingToolCalls st' k = pendingToolCalls st k" if "\<not> toolUseFor k item" for k
    using that unfolding p isfor by simp
  have f2: "pendingToolCalls st' k = Some (length (heap st))"
    if "toolUseFor k item \<and> is_primitive k" for k
    using that unfolding p isfor by auto
  have f3: "pendingToolCalls st k = Some b \<or> (b = length (heap st) \<and> toolUseFor k item)"
    if "pendingToolCalls st' k = Some b" for k b
    using that unfolding p isfor by (cases "k = ?k") (auto split: if_splits)
  have h': "heap st' = heap st @ map cellOf (filter (isItem (lit ''tool_use'')) [item])"
    unfolding h using True by simp
  have c': "calls' = calls @ [length (heap st) ..< length (heap st')]"
    unfolding c h by (simp add: upt_rec)
  from m h' c' f1 f2 f3 show ?thesis by blast
qed

lemma toolUseItem_settled:
  assumes run: "toolUseItem (tp, calls, st) item = Inr (tp', calls', st')"
    and pre: "settled st a \<and> heap st ! a = v \<and> parsed st = ms"
  shows "settled st' a \<and> heap st' ! a = v \<and> parsed st' = ms"
proof -
  note f = toolUseItem_frame_all [OF run]
  from pre have np: "\<And>k. pendingToolCalls st k \<noteq> Some a" and a: "a < length (heap st)"
    unfolding settled_def by simp_all
  from f a have h: "heap st' ! a = heap st ! a" and l: "a < length (heap st')"
    by (simp_all add: nth_append)
  have p: "pendingToolCalls st' k \<noteq> Some a" for k
    using f np [of k] a by blast
  from f pre h l p show ?thesis unfolding settled_def by simp
qed


lemma toolResultItem_frame:
  assumes run: "toolResultItem st item = Inr st'"
  shows "parsed st' = parsed st" and "length (heap st') = length (heap st)"
    and "\<And>k. \<not> toolResultFor k item \<Longrightarrow> pendingToolCalls st' k = pendingToolCalls st k"
    and "\<And>k b. pendingToolCalls st' k = Some b \<Longrightarrow> pendingToolCalls st k = Some b"
    and "\<And>b. (\<And>k. toolResultFor k item \<Longrightarrow> pendingToolCalls st k \<noteq> Some b) \<Longrightarrow>
          heap st' ! b = heap st ! b"
  using toolResultItem_frame_all [OF run] by blast+

lemma toolUseItem_frame:
  assumes run: "toolUseItem (tp, calls, st) item = Inr (tp', calls', st')"
  shows "parsed st' = parsed st"
    and "heap st' = heap st @ map cellOf (filter (isItem (lit ''tool_use'')) [item])"
    and "calls' = calls @ [length (heap st) ..< length (heap st')]"
    and "\<And>k. \<not> toolUseFor k item \<Longrightarrow> pendingToolCalls st' k = pendingToolCalls st k"
    and "\<And>k. toolUseFor k item \<Longrightarrow> is_primitive k \<Longrightarrow> pendingToolCalls st' k = Some (length (heap st))"
    and "\<And>k b. pendingToolCalls st' k = Some b \<Longrightarrow>
          pendingToolCalls st k = Some b \<or> (b = length (heap st) \<and> toolUseFor k item)"
  using toolUseItem_frame_all [OF run] by blast+

subsection \<open>The loop over the items of a user message\<close>









subsection \<open>The loop over the items of an assistant message\<close>


lemma toolUse_fold_settled:
  "foldE toolUseItem (tp, calls, st) items = Inr (tp', calls', st') \<Longrightarrow> settled st a \<Longrightarrow>
     settled st' a \<and> heap st' ! a = heap st ! a"
proof (induction items arbitrary: tp calls st)
  case Nil
  then show ?case by simp
next
  case (Cons x xs)
  from Cons.prems(1) obtain tp1 calls1 st1 where
    step: "toolUseItem (tp, calls, st) x = Inr (tp1, calls1, st1)"
    and rest: "foldE toolUseItem (tp1, calls1, st1) xs = Inr (tp', calls', st')"
    by (auto simp: bindE_Inr_iff)
  from Cons.prems(2) have "settled st a \<and> heap st ! a = heap st ! a \<and> parsed st = parsed st"
    by simp
  from toolUseItem_settled [OF step this]
  have s1: "settled st1 a" and h1: "heap st1 ! a = heap st ! a" by blast+
  from Cons.IH [OF rest s1] h1 show ?case by (simp only:)
qed



subsection \<open>Entries and lines\<close>



lemma elements_or: "elements (js_or c (JArr [])) = elements c"
  by (cases c) (simp_all add: js_or_def)

lemma foldE_elements:
  "(if isArray c then foldE f s (elements c) else Inr s) = foldE f s (elements c)"
  by (cases c) simp_all



lemma toolUse_fold_invariant:
  assumes all: "\<forall>x \<in> set items. R x"
    and item: "\<And>tp c s x tp' c' s'. R x \<Longrightarrow> toolUseItem (tp, c, s) x = Inr (tp', c', s') \<Longrightarrow> Q s \<Longrightarrow> Q s'"
    and run: "foldE toolUseItem (tp, calls, st) items = Inr (tp', calls', st')" and pre: "Q st"
  shows "Q st'"
proof -
  have "Q (snd (snd (tp', calls', st')))"
  proof (rule foldE_invariant [where P = "\<lambda>acc. Q (snd (snd acc))" and R = R, OF all _ run])
    show "Q (snd (snd (tp, calls, st)))" using pre by simp
  next
    fix acc x acc' assume r: "R x" and step: "toolUseItem acc x = Inr acc'" and q: "Q (snd (snd acc))"
    obtain t c s where acc: "acc = (t, c, s)" by (cases acc) auto
    obtain t1 c1 s1 where acc': "acc' = (t1, c1, s1)" by (cases acc') auto
    from step have "toolUseItem (t, c, s) x = Inr (t1, c1, s1)" unfolding acc acc' .
    from item [OF r this] q show "Q (snd (snd acc'))" unfolding acc acc' by simp
  qed
  then show ?thesis by simp
qed

lemma processEntry_cases:
  assumes run: "processEntry st entry = Inr st'"
  shows "st' = st \<or>
     (\<exists>c ts. field (js_or (field entry (lit ''message'')) (JObj [])) (lit ''content'') = c \<and>
        userEntry st (js_or (field entry (lit ''message'')) (JObj [])) ts = Inr st') \<or>
     (\<exists>c ts. field (js_or (field entry (lit ''message'')) (JObj [])) (lit ''content'') = c \<and>
        assistantEntry st (js_or (field entry (lit ''message'')) (JObj [])) ts = Inr st')"
proof -
  from run consider "st' = st"
    | m ts where "get_prop entry (lit ''message'') = Inr m" "userEntry st (js_or m (JObj [])) ts = Inr st'"
    | m ts where "get_prop entry (lit ''message'') = Inr m" "assistantEntry st (js_or m (JObj [])) ts = Inr st'"
    unfolding processEntry_def Let_def by (auto simp: bindE_Inr_iff split: if_splits)
  then show ?thesis
  proof cases
    case 1
    then show ?thesis by simp
  next
    case 2
    from get_prop_field [OF 2(1)] 2(2) show ?thesis by blast
  next
    case 3
    from get_prop_field [OF 3(1)] 3(2) show ?thesis by blast
  qed
qed

lemma userEntry_invariant:
  assumes all: "\<forall>x \<in> set (elements (field msgData (lit ''content''))). R x"
    and item: "\<And>s x s'. R x \<Longrightarrow> toolResultItem s x = Inr s' \<Longrightarrow> Q s \<Longrightarrow> Q s'"
    and push: "\<And>s m. Q s \<Longrightarrow> t_role m = lit ''user'' \<or> t_role m = lit ''assistant'' \<Longrightarrow>
                 Q (s\<lparr> parsed := parsed s @ [m] \<rparr>)"
    and run: "userEntry st msgData ts = Inr st'" and pre: "Q st"
  shows "Q st'"
proof -
  from run obtain c st1 body where c: "get_prop msgData (lit ''content'') = Inr c"
    and f: "foldE toolResultItem st (elements c) = Inr st1"
    and st': "st' = st1\<lparr> parsed := parsed st1 @
              [\<lparr> t_role = lit ''user'', t_content = body, t_timestamp = ts,
                 toolCalls = [], tokens = JObj [], model = JStr [] \<rparr>] \<rparr>"
    unfolding userEntry_def foldE_elements bindE_Inr_iff by blast
  from all have all': "\<forall>x \<in> set (elements c). R x"
    unfolding get_prop_field [OF c] .
  have "Q st1" by (rule foldE_invariant [where P = Q and R = R, OF all' item f pre])
  then show ?thesis unfolding st' by (rule push) simp
qed

lemma assistantEntry_invariant:
  assumes all: "\<forall>x \<in> set (elements (field msgData (lit ''content''))). R x"
    and item: "\<And>tp c s x tp' c' s'. R x \<Longrightarrow> toolUseItem (tp, c, s) x = Inr (tp', c', s') \<Longrightarrow> Q s \<Longrightarrow> Q s'"
    and push: "\<And>s m. Q s \<Longrightarrow> t_role m = lit ''user'' \<or> t_role m = lit ''assistant'' \<Longrightarrow>
                 Q (s\<lparr> parsed := parsed s @ [m] \<rparr>)"
    and run: "assistantEntry st msgData ts = Inr st'" and pre: "Q st"
  shows "Q st'"
proof -
  from run obtain c tp calls st1 joined u md where c: "get_prop msgData (lit ''content'') = Inr c"
    and f: "foldE toolUseItem ([], [], st) (elements (js_or c (JArr []))) = Inr (tp, calls, st1)"
    and st': "st' = st1\<lparr> parsed := parsed st1 @
              [\<lparr> t_role = lit ''assistant'',
                 t_content = joined,
                 t_timestamp = ts, toolCalls = calls,
                 tokens = js_or u (JObj []), model = js_or md (JStr []) \<rparr>] \<rparr>"
    unfolding assistantEntry_def foldE_elements Let_def
    by (auto simp: bindE_Inr_iff split: prod.splits)
  from all have all': "\<forall>x \<in> set (elements (js_or c (JArr []))). R x"
    unfolding get_prop_field [OF c] elements_or .
  have "Q st1" by (rule toolUse_fold_invariant [where Q = Q and R = R, OF all' item f pre])
  then show ?thesis unfolding st' by (rule push) simp
qed

lemma processLine_cases:
  assumes "processLine JSON_parse s l = Inr s'"
  shows "s' = s \<or> (\<exists>entry. JSON_parse l = Some entry \<and> processEntry s entry = Inr s')"
proof (cases "js_trim l = []")
  case True
  with assms show ?thesis by (simp add: processLine_def)
next
  case False
  show ?thesis
  proof (cases "JSON_parse l")
    case None
    with assms False show ?thesis by (simp add: processLine_def)
  next
    case (Some entry)
    with assms False have "processEntry s entry = Inr s'" by (simp add: processLine_def)
    with Some show ?thesis by blast
  qed
qed

lemma processLines_invariant:
  assumes items: "\<forall>l \<in> set ls. \<forall>x \<in> set (lineItems JSON_parse l). R x"
    and res: "\<And>s x s'. R x \<Longrightarrow> toolResultItem s x = Inr s' \<Longrightarrow> Q s \<Longrightarrow> Q s'"
    and use: "\<And>tp c s x tp' c' s'. R x \<Longrightarrow> toolUseItem (tp, c, s) x = Inr (tp', c', s') \<Longrightarrow> Q s \<Longrightarrow> Q s'"
    and push: "\<And>s m. Q s \<Longrightarrow> t_role m = lit ''user'' \<or> t_role m = lit ''assistant'' \<Longrightarrow>
                 Q (s\<lparr> parsed := parsed s @ [m] \<rparr>)"
    and run: "foldE (processLine JSON_parse) st ls = Inr st'" and pre: "Q st"
  shows "Q st'"
proof -
  have line: "Q s'"
    if r: "\<forall>x \<in> set (lineItems JSON_parse l). R x"
      and l: "processLine JSON_parse s l = Inr s'" and q: "Q s" for s l s'
  proof -
    from processLine_cases [OF l] consider "s' = s"
      | entry where "JSON_parse l = Some entry" "processEntry s entry = Inr s'"
      by blast
    then show ?thesis
    proof cases
      case 1
      with q show ?thesis by simp
    next
      case 2
      let ?m = "js_or (field entry (lit ''message'')) (JObj [])"
      from r 2(1) have all: "\<forall>x \<in> set (elements (field ?m (lit ''content''))). R x"
        by (simp add: lineItems_def)
      from processEntry_cases [OF 2(2)] consider "s' = s"
        | ts where "userEntry s ?m ts = Inr s'"
        | ts where "assistantEntry s ?m ts = Inr s'"
        by blast
      then show ?thesis
      proof cases
        case 1
        with q show ?thesis by simp
      next
        case 2
        show ?thesis by (rule userEntry_invariant [where Q = Q and R = R, OF all res push 2 q])
      next
        case 3
        show ?thesis by (rule assistantEntry_invariant [where Q = Q and R = R, OF all use push 3 q])
      qed
    qed
  qed
  show ?thesis
    by (rule foldE_invariant [where P = Q and R = "\<lambda>l. \<forall>x \<in> set (lineItems JSON_parse l). R x",
          OF items line run pre])
qed

subsection \<open>Whole logs\<close>




lemma processLines_roles:
  assumes run: "foldE (processLine JSON_parse) st ls = Inr st'"
    and pre: "\<forall>m \<in> set (parsed st). t_role m = lit ''user'' \<or> t_role m = lit ''assistant''"
  shows "\<forall>m \<in> set (parsed st'). t_role m = lit ''user'' \<or> t_role m = lit ''assistant''"
proof -
  let ?P = "\<lambda>s. \<forall>m \<in> set (parsed s). t_role m = lit ''user'' \<or> t_role m = lit ''assistant''"
  show "?P st'"
  proof (rule processLines_invariant [where Q = ?P and R = "\<lambda>x. True", OF _ _ _ _ run pre])
    show "\<forall>l \<in> set ls. \<forall>x \<in> set (lineItems JSON_parse l). True" by simp
  next
    fix s x s' assume step: "toolResultItem s x = Inr s'" and p: "?P s"
    from toolResultItem_frame(1) [OF step] p show "?P s'" by (simp only:)
  next
    fix tp c s x tp' c' s' assume step: "toolUseItem (tp, c, s) x = Inr (tp', c', s')" and p: "?P s"
    from toolUseItem_frame(1) [OF step] p show "?P s'" by (simp only:)
  next
    fix s :: ParseState and m :: "nat tools_ParsedMessage"
    assume "?P s" "t_role m = lit ''user'' \<or> t_role m = lit ''assistant''"
    then show "?P (s\<lparr> parsed := parsed s @ [m] \<rparr>)" by auto
  qed
qed




subsection \<open>A tool call from its \<open>tool_use\<close> item to the end of the log\<close>









lemma read_lines:
  "splitLines (readUseLine @ [0x0A] @ readResultLine) = [] @ [readUseLine] @ [] @ [readResultLine] @ []"
  "splitLines (readUseLine @ [0x0A] @ oddResultLine) = [] @ [readUseLine] @ [] @ [oddResultLine] @ []"
  "js_trim readUseLine \<noteq> []" "js_trim readResultLine \<noteq> []" "js_trim oddResultLine \<noteq> []"
  "readResultLine \<noteq> readUseLine" "oddResultLine \<noteq> readUseLine" "oddResultLine \<noteq> readResultLine"
  unfolding splitLines_def readUseLine_def readResultLine_def oddResultLine_def lit_def
    js_trim_def js_whitespace_def
  by simp_all

lemma read_use_line:
  "processLine readParse initialState readUseLine = Inr
     \<lparr> parsed = [\<lparr> t_role = lit ''assistant'', t_content = [], t_timestamp = JStr [],
            toolCalls = [0], tokens = JObj [], model = JStr [] \<rparr>],
       heap = [\<lparr> name = JStr (lit ''Read''), input = JObj [], result = [], isError = JBool False \<rparr>],
       pendingToolCalls = [JStr (lit ''t1'') \<mapsto> 0] \<rparr>"
  by (simp add: processLine_def read_lines readParse_def processEntry_def assistantEntry_def
      toolUseItem_def registerCall_def Map_set_def js_or_def readUse_def
      initialState_def Array_join_def lit_def)


text \<open>The same log with the content \<open>{"toString": 1}\<close> in the result: the conversion
  throws.\<close>

lemma odd_scenario:
  "tools_parseSessionJsonl readParse (readUseLine @ [0x0A] @ oddResultLine) = Inl TypeError"
proof -
  have s2: "processLine readParse
     \<lparr> parsed = [\<lparr> t_role = lit ''assistant'', t_content = [], t_timestamp = JStr [],
            toolCalls = [0], tokens = JObj [], model = JStr [] \<rparr>],
       heap = [\<lparr> name = JStr (lit ''Read''), input = JObj [], result = [], isError = JBool False \<rparr>],
       pendingToolCalls = [JStr (lit ''t1'') \<mapsto> 0] \<rparr> oddResultLine = Inl TypeError"
    by (simp add: processLine_def read_lines readParse_def processEntry_def userEntry_def
        toolResultItem_def Map_get_def js_or_def oddResult_def lit_def)
  show ?thesis
    unfolding tools_parseSessionJsonl_def read_lines(2)
    by (simp add: read_use_line s2)
qed


section \<open>The role of a parsed message\<close>

text \<open>The parser of the session tools pushes a message only under \<open>role === "user"\<close> or
  \<open>role === "assistant"\<close>, with that literal as its role.\<close>

lemma tools_parseSessionJsonl_roles:
  assumes "tools_parseSessionJsonl JSON_parse raw = Inr ms"
  shows "\<forall>m \<in> set ms. t_role m = lit ''user'' \<or> t_role m = lit ''assistant''"
proof -
  from assms obtain st where run: "foldE (processLine JSON_parse) initialState (splitLines raw) = Inr st"
    and ms: "ms = returned st"
    by (auto simp: tools_parseSessionJsonl_def bindE_Inr_iff)
  have "\<forall>m \<in> set (parsed initialState). t_role m = lit ''user'' \<or> t_role m = lit ''assistant''"
    by (simp add: initialState_def)
  from processLines_roles [OF run this] show ?thesis
    unfolding ms returned_def by (simp add: resolveMessage_def)
qed

lemma systemLine_split: "splitLines systemLine = [systemLine]"
  unfolding splitLines_def systemLine_def lit_def by simp

lemma systemLine_trim: "js_trim systemLine \<noteq> []"
  unfolding systemLine_def lit_def js_trim_def js_whitespace_def by simp

lemma systemEntry_embedder: "parseEntry systemEntry = Inr (Some \<lparr> role = JStr (lit ''system''), content = [],
        timestamp = JStr [], toolNames = [] \<rparr>)"
  unfolding systemEntry_def parseEntry_def
  by (simp add: bindE_def js_or_def lit_def js_trim_def)

lemma systemEntry_tools: "processEntry initialState systemEntry = Inr initialState"
  unfolding systemEntry_def processEntry_def
  by (simp add: bindE_def js_or_def lit_def)

text \<open>
  Claim C9. Every message of the transcript parsers has role \<open>user\<close> or \<open>assistant\<close>.
  The parser of the embedder does not keep to it: on a line with type \<open>user\<close> and message
  role \<open>system\<close> it returns a message with role \<open>system\<close> and empty content, where the
  parser of the session tools returns no message.
\<close>

theorem parseSessionJsonl_other_role:
  "parseSessionJsonl systemParse systemLine =
     Inr [\<lparr> role = JStr (lit ''system''), content = [], timestamp = JStr [], toolNames = [] \<rparr>] \<and>
   tools_parseSessionJsonl systemParse systemLine = Inr []"
  by (simp add: parseSessionJsonl_def tools_parseSessionJsonl_def systemLine_split parseLine_def processLine_def
      systemLine_trim systemParse_def systemEntry_embedder systemEntry_tools [unfolded initialState_def] bindE_def returned_def initialState_def)

section \<open>Properties of the batch pipeline\<close>

subsection \<open>A session appends its rows, whatever the table holds\<close>

lemma insertChunk_append:
  "insertChunk w db sessionId chunk s e p t =
     (case insertChunk w [] sessionId chunk s e p t of
        Inl err \<Rightarrow> Inl err
      | Inr r \<Rightarrow> Inr (db @ r))"
  by (simp add: insertChunk_def bindE_def Let_def split: sum.splits option.splits)

lemma insertChunk_session_id:
  "insertChunk w [] sessionId chunk s e p t = Inr r \<Longrightarrow> \<forall>row \<in> set r. session_id row = sessionId"
  by (auto simp: insertChunk_def bindE_def Let_def split: sum.splits option.splits)

lemma metaOnlyTry_append:
  "metaOnlyTry w sessionId meta db =
     (case metaOnlyTry w sessionId meta [] of
        Inl err \<Rightarrow> Inl err
      | Inr r \<Rightarrow> Inr (db @ r))"
  unfolding metaOnlyTry_def bindE_def
  by (simp add: insertChunk_append [of w db] split: sum.splits)

lemma metaOnlyTry_session_id:
  "metaOnlyTry w sessionId meta [] = Inr r \<Longrightarrow> \<forall>row \<in> set r. session_id row = sessionId"
  unfolding metaOnlyTry_def
  by (auto simp: bindE_Inr_iff dest!: insertChunk_session_id)

lemma chunkInsertLoop_append:
  "chunkInsertLoop w sessionId meta db chunks =
     (db @ fst (chunkInsertLoop w sessionId meta [] chunks),
      snd (chunkInsertLoop w sessionId meta [] chunks))"
proof (induction chunks arbitrary: db)
  case Nil
  then show ?case by simp
next
  case (Cons chunk chunks)
  let ?step = "\<lambda>d. bindE (summarizeChunk (sdk_query w) (chunkText chunk)) (\<lambda>summary.
           bindE (embedText (http_fetch w) summary) (\<lambda>embedding.
           bindE (metaProject meta) (\<lambda>project.
           bindE (metaTokens w meta) (\<lambda>tokenCount.
             insertChunk w d sessionId chunk summary embedding project tokenCount))))"
  have step: "?step db = (case ?step [] of Inl err \<Rightarrow> Inl err | Inr r \<Rightarrow> Inr (db @ r))"
    unfolding bindE_def by (simp add: insertChunk_append [of w db] split: sum.splits)
  show ?case
  proof (cases "?step []")
    case (Inl e)
    with step show ?thesis by simp
  next
    case (Inr r)
    with step have sdb: "?step db = Inr (db @ r)" by simp
    show ?thesis
      using Inr sdb Cons.IH [of "db @ r"] Cons.IH [of r] by simp
  qed
qed

lemma chunkInsertLoop_session_id:
  "\<forall>row \<in> set db. session_id row = sessionId \<Longrightarrow>
   \<forall>row \<in> set (fst (chunkInsertLoop w sessionId meta db chunks)). session_id row = sessionId"
proof (induction chunks arbitrary: db)
  case Nil
  then show ?case by simp
next
  case (Cons chunk chunks)
  let ?step = "bindE (summarizeChunk (sdk_query w) (chunkText chunk)) (\<lambda>summary.
           bindE (embedText (http_fetch w) summary) (\<lambda>embedding.
           bindE (metaProject meta) (\<lambda>project.
           bindE (metaTokens w meta) (\<lambda>tokenCount.
             insertChunk w db sessionId chunk summary embedding project tokenCount))))"
  show ?case
  proof (cases ?step)
    case (Inl e)
    with Cons.prems show ?thesis by simp
  next
    case (Inr db')
    then obtain s e p t where ins: "insertChunk w db sessionId chunk s e p t = Inr db'"
      by (auto simp: bindE_Inr_iff)
    then obtain r where r: "insertChunk w [] sessionId chunk s e p t = Inr r" and db': "db' = db @ r"
      by (subst (asm) insertChunk_append) (auto split: sum.splits)
    from insertChunk_session_id [OF r] Cons.prems
    have "\<forall>row \<in> set db'. session_id row = sessionId" unfolding db' by auto
    from Cons.IH [OF this] Inr show ?thesis by simp
  qed
qed

lemma processSession_append:
  "processSession w file sessionId db =
     (db @ fst (processSession w file sessionId []), snd (processSession w file sessionId []))"
  unfolding processSession_def
  by (simp add: metaOnlyTry_append [of w sessionId _ db]
        chunkInsertLoop_append [of w sessionId _ db]
      split: sum.splits option.splits prod.splits)

lemma processSession_session_id:
  "\<forall>row \<in> set (fst (processSession w file sessionId [])). session_id row = sessionId"
proof -
  have loop: "session_id row = sessionId"
    if "chunkInsertLoop w sessionId meta [] chunks = (x, y)" "row \<in> set x" for meta chunks x y row
    using chunkInsertLoop_session_id [of "[]" sessionId w meta chunks] that by simp
  have only: "session_id row = sessionId"
    if "metaOnlyTry w sessionId meta [] = Inr r" "row \<in> set r" for meta r row
    using metaOnlyTry_session_id [OF that(1)] that(2) by blast
  show ?thesis
    unfolding processSession_def
    by (auto split: sum.splits option.splits prod.splits if_splits dest: only loop)
qed

subsection \<open>The loop over the sessions\<close>

lemma sessionLoop_step:
  "sessionLoop w ids cap (file # rest) run =
     (if reached cap (processed run) then run
      else if js_replace (lit ''.json'') [] file \<in> ids
              \<or> js_startsWith (js_replace (lit ''.json'') [] file) (lit ''agent-'')
      then sessionLoop w ids cap rest (run\<lparr> skipped := skipped run + 1 \<rparr>)
      else
        (case snd (processSession w file (js_replace (lit ''.json'') [] file) []) of
           Processed \<Rightarrow>
             sessionLoop w ids cap rest
               (run\<lparr> rows := rows run @ fst (processSession w file (js_replace (lit ''.json'') [] file) []),
                     processed := processed run + 1 \<rparr>)
         | Skipped \<Rightarrow>
             sessionLoop w ids cap rest
               (run\<lparr> rows := rows run @ fst (processSession w file (js_replace (lit ''.json'') [] file) []),
                     skipped := skipped run + 1 \<rparr>)
         | Errored \<Rightarrow>
             sessionLoop w ids cap rest
               (run\<lparr> rows := rows run @ fst (processSession w file (js_replace (lit ''.json'') [] file) []),
                     errors := errors run + 1 \<rparr>)
         | Fatal e \<Rightarrow>
             run\<lparr> rows := rows run @ fst (processSession w file (js_replace (lit ''.json'') [] file) []),
                  fatal := Some e \<rparr>))"
  by (subst sessionLoop.simps(2), subst processSession_append)
     (simp add: Let_def split: outcome.splits)

lemma sessionLoop_inert:
  assumes "\<forall>f \<in> set files.
      js_replace (lit ''.json'') [] f \<in> ids \<or>
      js_startsWith (js_replace (lit ''.json'') [] f) (lit ''agent-'') \<or>
      fst (processSession w f (js_replace (lit ''.json'') [] f) []) = []"
  shows "rows (sessionLoop w ids cap files run) = rows run"
  using assms
proof (induction files arbitrary: run)
  case Nil
  then show ?case by simp
next
  case (Cons fl rest)
  then have rest: "rows (sessionLoop w ids cap rest r) = rows r" for r by simp
  show ?case
  proof (cases "js_replace (lit ''.json'') [] fl \<in> ids
              \<or> js_startsWith (js_replace (lit ''.json'') [] fl) (lit ''agent-'')")
    case True
    then show ?thesis by (simp add: sessionLoop_step rest del: sessionLoop.simps)
  next
    case False
    with Cons.prems have "fst (processSession w fl (js_replace (lit ''.json'') [] fl) []) = []"
      by simp
    with False show ?thesis
      by (simp add: sessionLoop_step rest del: sessionLoop.simps split: outcome.splits)
  qed
qed

lemma Run_update_order:
  "r\<lparr> skipped := a, rows := b \<rparr> = r\<lparr> rows := b, skipped := a \<rparr>"
  "r\<lparr> processed := a, rows := b \<rparr> = r\<lparr> rows := b, processed := a \<rparr>"
  "r\<lparr> errors := a, rows := b \<rparr> = r\<lparr> rows := b, errors := a \<rparr>"
  by (rule Run.equality; simp)+

lemma sessionLoop_rows_append:
  "rows (sessionLoop w ids cap files run) =
     rows run @ rows (sessionLoop w ids cap files (run\<lparr> rows := [] \<rparr>))"
proof (induction files arbitrary: run)
  case Nil
  then show ?case by simp
next
  case (Cons fl rest)
  note IH = Cons.IH
  let ?r = "fst (processSession w fl (js_replace (lit ''.json'') [] fl) [])"
  have a: "rows (sessionLoop w ids cap rest (run\<lparr> skipped := Suc (skipped run) \<rparr>)) =
      rows run @ rows (sessionLoop w ids cap rest (run\<lparr> rows := [], skipped := Suc (skipped run) \<rparr>))"
    using IH [of "run\<lparr> skipped := Suc (skipped run) \<rparr>"] by (simp add: Run_update_order)
  have b: "rows (sessionLoop w ids cap rest (run\<lparr> rows := rows run @ ?r, processed := Suc (processed run) \<rparr>)) =
      rows run @ rows (sessionLoop w ids cap rest (run\<lparr> rows := ?r, processed := Suc (processed run) \<rparr>))"
    using IH [of "run\<lparr> rows := rows run @ ?r, processed := Suc (processed run) \<rparr>"]
      IH [of "run\<lparr> rows := ?r, processed := Suc (processed run) \<rparr>"] by (simp add: Run_update_order)
  have c: "rows (sessionLoop w ids cap rest (run\<lparr> rows := rows run @ ?r, skipped := Suc (skipped run) \<rparr>)) =
      rows run @ rows (sessionLoop w ids cap rest (run\<lparr> rows := ?r, skipped := Suc (skipped run) \<rparr>))"
    using IH [of "run\<lparr> rows := rows run @ ?r, skipped := Suc (skipped run) \<rparr>"]
      IH [of "run\<lparr> rows := ?r, skipped := Suc (skipped run) \<rparr>"] by (simp add: Run_update_order)
  have d: "rows (sessionLoop w ids cap rest (run\<lparr> rows := rows run @ ?r, errors := Suc (errors run) \<rparr>)) =
      rows run @ rows (sessionLoop w ids cap rest (run\<lparr> rows := ?r, errors := Suc (errors run) \<rparr>))"
    using IH [of "run\<lparr> rows := rows run @ ?r, errors := Suc (errors run) \<rparr>"]
      IH [of "run\<lparr> rows := ?r, errors := Suc (errors run) \<rparr>"] by (simp add: Run_update_order)
  show ?case
    by (simp add: sessionLoop_step a b c d del: sessionLoop.simps split: outcome.splits)
qed

lemma sessionLoop_rows_grow:
  "set (rows run) \<subseteq> set (rows (sessionLoop w ids cap files run))"
  by (subst sessionLoop_rows_append) simp

text \<open>A run that was not aborted and did not reach its cap has visited every session.\<close>

lemma sessionLoop_covers:
  assumes "fatal (sessionLoop w ids cap files run) = None"
    and "\<not> reached cap (processed (sessionLoop w ids cap files run))"
  shows "\<forall>f \<in> set files.
      js_replace (lit ''.json'') [] f \<in> ids \<or>
      js_startsWith (js_replace (lit ''.json'') [] f) (lit ''agent-'') \<or>
      set (fst (processSession w f (js_replace (lit ''.json'') [] f) []))
        \<subseteq> set (rows (sessionLoop w ids cap files run))"
  using assms
proof (induction files arbitrary: run)
  case Nil
  then show ?case by simp
next
  case (Cons fl rest)
  let ?sid = "js_replace (lit ''.json'') [] fl"
  let ?r = "fst (processSession w fl ?sid [])"
  have nr: "\<not> reached cap (processed run)"
  proof
    assume "reached cap (processed run)"
    then have "sessionLoop w ids cap (fl # rest) run = run" by simp
    with Cons.prems(2) \<open>reached cap (processed run)\<close> show False by simp
  qed
  show ?case
  proof (cases "?sid \<in> ids \<or> js_startsWith ?sid (lit ''agent-'')")
    case True
    then have eq: "sessionLoop w ids cap (fl # rest) run =
        sessionLoop w ids cap rest (run\<lparr> skipped := skipped run + 1 \<rparr>)"
      by (simp add: sessionLoop_step nr del: sessionLoop.simps)
    from Cons.prems have "fatal (sessionLoop w ids cap rest (run\<lparr> skipped := skipped run + 1 \<rparr>)) = None"
      and "\<not> reached cap (processed (sessionLoop w ids cap rest (run\<lparr> skipped := skipped run + 1 \<rparr>)))"
      unfolding eq by simp_all
    from Cons.IH [OF this] True show ?thesis unfolding eq by auto
  next
    case False
    show ?thesis
    proof (cases "snd (processSession w fl ?sid [])")
      case (Fatal e)
      with False Cons.prems(1) show ?thesis
        by (simp add: sessionLoop_step nr del: sessionLoop.simps)
    next
      case Processed
      let ?run = "run\<lparr> rows := rows run @ ?r, processed := processed run + 1 \<rparr>"
      from Processed False have eq: "sessionLoop w ids cap (fl # rest) run =
          sessionLoop w ids cap rest ?run"
        by (simp add: sessionLoop_step nr del: sessionLoop.simps)
      from Cons.prems have f: "fatal (sessionLoop w ids cap rest ?run) = None"
        "\<not> reached cap (processed (sessionLoop w ids cap rest ?run))" unfolding eq by simp_all
      have "set ?r \<subseteq> set (rows ?run)" by simp
      also have "\<dots> \<subseteq> set (rows (sessionLoop w ids cap rest ?run))"
        by (rule sessionLoop_rows_grow)
      finally have here: "set ?r \<subseteq> set (rows (sessionLoop w ids cap rest ?run))" .
      from Cons.IH [OF f] here show ?thesis unfolding eq by auto
    next
      case Skipped
      let ?run = "run\<lparr> rows := rows run @ ?r, skipped := skipped run + 1 \<rparr>"
      from Skipped False have eq: "sessionLoop w ids cap (fl # rest) run =
          sessionLoop w ids cap rest ?run"
        by (simp add: sessionLoop_step nr del: sessionLoop.simps)
      from Cons.prems have f: "fatal (sessionLoop w ids cap rest ?run) = None"
        "\<not> reached cap (processed (sessionLoop w ids cap rest ?run))" unfolding eq by simp_all
      have "set ?r \<subseteq> set (rows ?run)" by simp
      also have "\<dots> \<subseteq> set (rows (sessionLoop w ids cap rest ?run))"
        by (rule sessionLoop_rows_grow)
      finally have here: "set ?r \<subseteq> set (rows (sessionLoop w ids cap rest ?run))" .
      from Cons.IH [OF f] here show ?thesis unfolding eq by auto
    next
      case Errored
      let ?run = "run\<lparr> rows := rows run @ ?r, errors := errors run + 1 \<rparr>"
      from Errored False have eq: "sessionLoop w ids cap (fl # rest) run =
          sessionLoop w ids cap rest ?run"
        by (simp add: sessionLoop_step nr del: sessionLoop.simps)
      from Cons.prems have f: "fatal (sessionLoop w ids cap rest ?run) = None"
        "\<not> reached cap (processed (sessionLoop w ids cap rest ?run))" unfolding eq by simp_all
      have "set ?r \<subseteq> set (rows ?run)" by simp
      also have "\<dots> \<subseteq> set (rows (sessionLoop w ids cap rest ?run))"
        by (rule sessionLoop_rows_grow)
      finally have here: "set ?r \<subseteq> set (rows (sessionLoop w ids cap rest ?run))" .
      from Cons.IH [OF f] here show ?thesis unfolding eq by auto
    qed
  qed
qed

subsection \<open>Runs\<close>

lemma main_force_append:
  "rows (main w True cap db) = db @ rows (main w True cap [])"
proof (cases "fs_readdir w (SESSION_META_DIR w)")
  case (Inl e)
  then show ?thesis by (simp add: main_def)
next
  case (Inr metaFiles)
  show ?thesis
  proof (cases "ollamaRunning w")
    case False
    with Inr show ?thesis by (simp add: main_def)
  next
    case True
    with Inr show ?thesis
      by (simp add: main_def Let_def
          sessionLoop_rows_append [of w "{}" cap _ "\<lparr> rows = db, processed = 0, skipped = 0, errors = 0, fatal = None \<rparr>"])
  qed
qed

lemma main_force_empty: "main w True cap [] = main w False cap []"
  by (cases "fs_readdir w (SESSION_META_DIR w)")
     (simp_all add: main_def getEmbeddedSessionIds_def Let_def)

lemma main_rows_grow: "set db \<subseteq> set (rows (main w force cap db))"
proof (cases "fs_readdir w (SESSION_META_DIR w)")
  case (Inl e)
  then show ?thesis by (simp add: main_def)
next
  case (Inr metaFiles)
  show ?thesis
  proof (cases "ollamaRunning w")
    case False
    with Inr show ?thesis by (simp add: main_def)
  next
    case True
    have "set (rows \<lparr> rows = db, processed = 0, skipped = 0, errors = 0, fatal = None \<rparr>)
        \<subseteq> set (rows (sessionLoop w (if force then {} else getEmbeddedSessionIds db) cap
              (filter (\<lambda>f. js_endsWith f (lit ''.json'')) metaFiles)
              \<lparr> rows = db, processed = 0, skipped = 0, errors = 0, fatal = None \<rparr>))"
      by (rule sessionLoop_rows_grow)
    with Inr True show ?thesis by (simp add: main_def Let_def)
  qed
qed

lemma main_idempotent:
  assumes finished: "fatal (main w force cap db) = None"
    and uncut: "\<not> reached cap (processed (main w force cap db))"
  shows "rows (main w False cap' (rows (main w force cap db))) = rows (main w force cap db)"
proof -
  from finished obtain metaFiles where dir: "fs_readdir w (SESSION_META_DIR w) = Inr metaFiles"
    by (cases "fs_readdir w (SESSION_META_DIR w)") (simp_all add: main_def)
  from finished dir have up: "ollamaRunning w"
    by (cases "ollamaRunning w") (simp_all add: main_def)
  define files where "files = filter (\<lambda>f. js_endsWith f (lit ''.json'')) metaFiles"
  define ids1 where "ids1 = (if force then {} else getEmbeddedSessionIds db)"
  define first where "first = sessionLoop w ids1 cap files
      \<lparr> rows = db, processed = 0, skipped = 0, errors = 0, fatal = None \<rparr>"
  define ids2 where "ids2 = getEmbeddedSessionIds (rows first)"
  have run1: "main w force cap db = first"
    using dir up by (simp add: main_def Let_def first_def ids1_def files_def)
  have grow: "set db \<subseteq> set (rows first)"
    using main_rows_grow [of db w force cap] unfolding run1 .
  have ids: "ids1 \<subseteq> ids2"
    using grow unfolding ids1_def ids2_def getEmbeddedSessionIds_def by auto
  have member: "session_id row \<in> ids2" if "row \<in> set (rows first)" for row
    using that unfolding ids2_def getEmbeddedSessionIds_def by simp
  from finished have "fatal first = None" unfolding run1 .
  moreover from uncut have "\<not> reached cap (processed first)" unfolding run1 .
  ultimately have cov: "\<forall>f \<in> set files.
      js_replace (lit ''.json'') [] f \<in> ids1 \<or>
      js_startsWith (js_replace (lit ''.json'') [] f) (lit ''agent-'') \<or>
      set (fst (processSession w f (js_replace (lit ''.json'') [] f) [])) \<subseteq> set (rows first)"
    unfolding first_def by (rule sessionLoop_covers)
  have inert: "\<forall>f \<in> set files.
      js_replace (lit ''.json'') [] f \<in> ids2 \<or>
      js_startsWith (js_replace (lit ''.json'') [] f) (lit ''agent-'') \<or>
      fst (processSession w f (js_replace (lit ''.json'') [] f) []) = []"
  proof
    fix f assume f: "f \<in> set files"
    define sid where "sid = js_replace (lit ''.json'') [] f"
    define r where "r = fst (processSession w f sid [])"
    from cov f consider "sid \<in> ids1" | "js_startsWith sid (lit ''agent-'')"
      | "set r \<subseteq> set (rows first)" unfolding sid_def r_def by blast
    then have "sid \<in> ids2 \<or> js_startsWith sid (lit ''agent-'') \<or> r = []"
    proof cases
      case 1
      with ids show ?thesis by blast
    next
      case 2
      then show ?thesis by simp
    next
      case 3
      show ?thesis
      proof (cases "r = []")
        case True
        then show ?thesis by simp
      next
        case False
        then obtain row where row: "row \<in> set r" by (cases r) auto
        with processSession_session_id [of w f sid] have "session_id row = sid"
          unfolding r_def by blast
        moreover from row 3 have "row \<in> set (rows first)" by blast
        ultimately have "sid \<in> ids2" using member by blast
        then show ?thesis by simp
      qed
    qed
    then show "js_replace (lit ''.json'') [] f \<in> ids2 \<or>
      js_startsWith (js_replace (lit ''.json'') [] f) (lit ''agent-'') \<or>
      fst (processSession w f (js_replace (lit ''.json'') [] f) []) = []"
      unfolding sid_def r_def .
  qed
  have "rows (main w False cap' (rows first)) =
      rows (sessionLoop w ids2 cap' files
        \<lparr> rows = rows first, processed = 0, skipped = 0, errors = 0, fatal = None \<rparr>)"
    using dir up by (simp add: main_def Let_def ids2_def files_def)
  also have "\<dots> = rows first"
    using sessionLoop_inert [OF inert, of cap'
        "\<lparr> rows = rows first, processed = 0, skipped = 0, errors = 0, fatal = None \<rparr>"]
    by simp
  finally show ?thesis unfolding run1 .
qed

subsection \<open>The world with two sessions\<close>

lemma twoSessions_fields:
  "os_homedir twoSessions = lit ''/home/u''"
  "path_join twoSessions = js_join (lit ''/'')"
  "fs_readdir twoSessions = (\<lambda>dir. if dir = lit ''/home/u/.claude/usage-data/session-meta''
                            then Inr [lit ''a.json'', lit ''b.json'']
                            else Inl (Error (lit ''ENOENT'')))"
  "fs_access twoSessions = (\<lambda>p. False)"
  "fs_readFile twoSessions = (\<lambda>p. Inr (lit ''{}''))"
  "JSON_parse_of twoSessions = (\<lambda>s. if s = lit ''{}'' then Some (JObj []) else None)"
  "Object_keys twoSessions = (\<lambda>v. [])"
  "js_plus twoSessions = (\<lambda>a b. Inr a)"
  "http_fetch twoSessions = onesFetch"
  "insert_error twoSessions = (\<lambda>row. None)"
  by (simp_all add: twoSessions_def)

lemma twoSessions_session:
  "processSession twoSessions f sessionId db = (db @ [metaRow sessionId], Processed)"
proof -
  have nolog: "findSessionJsonl twoSessions sessionId = None"
    by (simp add: findSessionJsonl_def twoSessions_fields PROJECTS_DIR_def lit_def)
  have stext: "metaSummaryText twoSessions (JObj []) =
      Inr (lit ''Session: Unknown. Project: undefined. Duration: undefinedmin. Tools: '')"
    by (simp add: metaSummaryText_def js_or_def twoSessions_fields lit_def)
  have emb: "embedText onesFetch t = Inr (JArr (replicate 768 (JNum (lit ''1''))))" for t
    by (simp add: embedText_def bindE_def onesFetch_def)
  have short: "take 2000 (lit ''Session: Unknown. Project: undefined. Duration: undefinedmin. Tools: '')
      = lit ''Session: Unknown. Project: undefined. Duration: undefinedmin. Tools: ''"
    by (simp add: lit_def)
  have "elementStrings (map JNum (replicate 768 (lit ''1''))) = Inr (replicate 768 (lit ''1''))"
    by (rule elementStrings_numbers)
  then have joined: "Array_join (lit '','') (replicate 768 (JNum (lit ''1'')))
      = Inr (js_join (lit '','') (replicate 768 (lit ''1'')))"
    by (simp add: Array_join_def)
  have ins: "metaOnlyTry twoSessions sessionId (JObj []) db = Inr (db @ [metaRow sessionId])"
    unfolding metaOnlyTry_def stext
    by (simp add: emb metaProject_def metaTokens_def insertChunk_def js_or_def short joined
        metaRow_def twoSessions_fields)
  show ?thesis
    unfolding processSession_def nolog
    by (simp add: bindE_def ins twoSessions_fields)
qed

lemma twoSessions_files:
  "fs_readdir twoSessions (SESSION_META_DIR twoSessions) = Inr [lit ''a.json'', lit ''b.json'']"
  by (simp add: SESSION_META_DIR_def twoSessions_fields lit_def)

lemma twoSessions_ollama: "ollamaRunning twoSessions"
  by (simp add: ollamaRunning_def twoSessions_fields onesFetch_def)

lemma twoSessions_names:
  "js_endsWith (lit ''a.json'') (lit ''.json'')" "js_endsWith (lit ''b.json'') (lit ''.json'')"
  "js_replace (lit ''.json'') [] (lit ''a.json'') = lit ''a''"
  "js_replace (lit ''.json'') [] (lit ''b.json'') = lit ''b''"
  "\<not> js_startsWith (lit ''a'') (lit ''agent-'')" "\<not> js_startsWith (lit ''b'') (lit ''agent-'')"
  "lit ''a'' \<noteq> lit ''b''" "lit ''b'' \<noteq> lit ''a''"
  by (simp_all add: js_endsWith_def js_startsWith_def lit_def)

lemma metaRow_session_id: "session_id (metaRow s) = s"
  by (simp add: metaRow_def)

lemma twoSessions_capped_first:
  "main twoSessions False (Some 1) [] =
     \<lparr> rows = [metaRow (lit ''a'')], processed = 1, skipped = 0, errors = 0, fatal = None \<rparr>"
  by (simp add: main_def twoSessions_files twoSessions_ollama twoSessions_names
      getEmbeddedSessionIds_def twoSessions_session reached_def Let_def)

lemma twoSessions_capped_second:
  "main twoSessions False (Some 1) [metaRow (lit ''a'')] =
     \<lparr> rows = [metaRow (lit ''a''), metaRow (lit ''b'')], processed = 1, skipped = 1, errors = 0,
       fatal = None \<rparr>"
  by (simp add: main_def twoSessions_files twoSessions_ollama twoSessions_names
      getEmbeddedSessionIds_def twoSessions_session reached_def metaRow_session_id Let_def)

lemma twoSessions_uncapped:
  "main twoSessions False None [] =
     \<lparr> rows = [metaRow (lit ''a''), metaRow (lit ''b'')], processed = 2, skipped = 0, errors = 0,
       fatal = None \<rparr>"
  by (simp add: main_def twoSessions_files twoSessions_ollama twoSessions_names
      getEmbeddedSessionIds_def twoSessions_session reached_def Let_def)

lemma twoSessions_roomy:
  "main twoSessions False (Some 5) [] =
     \<lparr> rows = [metaRow (lit ''a''), metaRow (lit ''b'')], processed = 2, skipped = 0, errors = 0,
       fatal = None \<rparr>"
  by (simp add: main_def twoSessions_files twoSessions_ollama twoSessions_names
      getEmbeddedSessionIds_def twoSessions_session reached_def Let_def)

text \<open>
  Claim C4, as stated, fails under a session cap. In the world with the two sessions
  \<open>a\<close> and \<open>b\<close>, a first run with \<open>--limit 1\<close> and without \<open>--force\<close> on the empty table
  inserts the row of \<open>a\<close> and stops; a second such run on the resulting table skips \<open>a\<close>
  and inserts the row of \<open>b\<close>.
\<close>

theorem capped_rerun_inserts:
  "map session_id (rows (main twoSessions False (Some 1) [])) = [lit ''a''] \<and>
   map session_id
     (rows (main twoSessions False (Some 1) (rows (main twoSessions False (Some 1) []))))
     = [lit ''a'', lit ''b'']"
  by (simp add: twoSessions_capped_first twoSessions_capped_second metaRow_session_id)

text \<open>
  Claim C4, amended. In the loop of \<open>main\<close>, a session whose id is in the
  already-embedded set only increments \<open>skipped\<close>: nothing is read, parsed, summarized,
  embedded or inserted for it. After a run that was not aborted and did not reach its
  session cap, a second run without the force flag, with any cap, in the same world,
  leaves the table as it is. With the force flag the already-embedded set is empty, so a
  forced run appends to any table exactly the rows that it inserts into the empty table,
  the same rows that an unforced run inserts into the empty table: a forced second run
  inserts every row again.
\<close>

theorem rerun_skips_embedded:
  "(\<forall>file rest run.
      \<not> reached maxSessions (processed run) \<and>
      js_replace (lit ''.json'') [] file \<in> embeddedIds \<longrightarrow>
      sessionLoop w embeddedIds maxSessions (file # rest) run =
        sessionLoop w embeddedIds maxSessions rest (run\<lparr> skipped := skipped run + 1 \<rparr>)) \<and>
   (\<forall>secondCap.
      fatal (main w force maxSessions db) = None \<and>
      \<not> reached maxSessions (processed (main w force maxSessions db)) \<longrightarrow>
      rows (main w False secondCap (rows (main w force maxSessions db)))
        = rows (main w force maxSessions db)) \<and>
   rows (main w True maxSessions db) = db @ rows (main w True maxSessions []) \<and>
   main w True maxSessions [] = main w False maxSessions []"
proof (intro conjI allI impI)
  fix fl rest and run :: Run
  assume "\<not> reached maxSessions (processed run) \<and>
      js_replace (lit ''.json'') [] fl \<in> embeddedIds"
  then show "sessionLoop w embeddedIds maxSessions (fl # rest) run =
        sessionLoop w embeddedIds maxSessions rest (run\<lparr> skipped := skipped run + 1 \<rparr>)"
    by (simp add: Let_def)
next
  fix secondCap
  assume h: "fatal (main w force maxSessions db) = None \<and>
      \<not> reached maxSessions (processed (main w force maxSessions db))"
  then have f: "fatal (main w force maxSessions db) = None"
    and u: "\<not> reached maxSessions (processed (main w force maxSessions db))" by simp_all
  show "rows (main w False secondCap (rows (main w force maxSessions db)))
        = rows (main w force maxSessions db)"
    by (rule main_idempotent [OF f u])
next
  show "rows (main w True maxSessions db) = db @ rows (main w True maxSessions [])"
    by (rule main_force_append)
next
  show "main w True maxSessions [] = main w False maxSessions []"
    by (rule main_force_empty)
qed

theorem rerun_skips_embedded_witness:
  "fatal (main twoSessions False (Some 5) []) = None \<and>
   reached (Some 5) (processed (main twoSessions False (Some 5) [])) = False \<and>
   rows (main twoSessions False (Some 5) []) = [metaRow (lit ''a''), metaRow (lit ''b'')] \<and>
   rows (main twoSessions False (Some 1) (rows (main twoSessions False (Some 5) [])))
     = [metaRow (lit ''a''), metaRow (lit ''b'')] \<and>
   rows (main twoSessions False None (rows (main twoSessions False (Some 5) [])))
     = [metaRow (lit ''a''), metaRow (lit ''b'')] \<and>
   rows (main twoSessions True (Some 5) (rows (main twoSessions False (Some 5) [])))
     = [metaRow (lit ''a''), metaRow (lit ''b''), metaRow (lit ''a''), metaRow (lit ''b'')]"
proof -
  have finished: "fatal (main twoSessions False (Some 5) []) = None"
    and first: "rows (main twoSessions False (Some 5) []) = [metaRow (lit ''a''), metaRow (lit ''b'')]"
    and room: "\<not> reached (Some 5) (processed (main twoSessions False (Some 5) []))"
    by (simp_all add: twoSessions_roomy reached_def)
  note T = rerun_skips_embedded [of "Some 5" _ twoSessions False "[]", THEN conjunct2, THEN conjunct1,
      rule_format, OF conjI [OF finished room]]
  have again1: "rows (main twoSessions False (Some 1) (rows (main twoSessions False (Some 5) [])))
      = rows (main twoSessions False (Some 5) [])" by (rule T)
  have again2: "rows (main twoSessions False None (rows (main twoSessions False (Some 5) [])))
      = rows (main twoSessions False (Some 5) [])" by (rule T)
  note F = rerun_skips_embedded [of "Some 5" _ twoSessions False "rows (main twoSessions False (Some 5) [])"]
  from F have forced: "rows (main twoSessions True (Some 5) (rows (main twoSessions False (Some 5) []))) =
      rows (main twoSessions False (Some 5) []) @ rows (main twoSessions True (Some 5) [])"
    and same: "main twoSessions True (Some 5) [] = main twoSessions False (Some 5) []"
    by blast+
  from finished first room again1 again2 forced same show ?thesis by simp
qed

text \<open>
  Claim C10. On the empty message list \<open>chunkSession\<close> returns exactly one chunk, with
  index 0, no messages, empty text, empty start and end times and no tools; and on no
  input does it return an empty list of chunks. The pipeline never calls it on the empty
  list: a session whose log parses to no message is skipped before chunking, with the
  table unchanged, once \<open>console.log\<close> has printed the project path of the session; when
  the meta value is \<open>null\<close> or the project path has no conversion to a string, that
  statement throws and the run ends.
\<close>

theorem chunkSession_never_empty:
  "chunkSession [] =
     Inr [\<lparr> chunkIndex = 0, messages = [], chunkText = [], startTime = JStr [], endTime = JStr [],
            toolsUsed = [] \<rparr>] \<and>
   chunkSession msgs \<noteq> Inr [] \<and>
   (\<forall>raw meta jsonlPath projectText jsonlContent.
      fs_readFile w (path_join w [SESSION_META_DIR w, file]) = Inr raw \<and>
      JSON_parse_of w raw = Some meta \<and>
      findSessionJsonl w sessionId = Some jsonlPath \<and>
      bindE (get_prop meta (lit ''project_path'')) ToString = Inr projectText \<and>
      fs_readFile w jsonlPath = Inr jsonlContent \<and>
      parseSessionJsonl (JSON_parse_of w) jsonlContent = Inr [] \<longrightarrow>
      processSession w file sessionId db = (db, Skipped)) \<and>
   (\<forall>raw meta jsonlPath e.
      fs_readFile w (path_join w [SESSION_META_DIR w, file]) = Inr raw \<and>
      JSON_parse_of w raw = Some meta \<and>
      findSessionJsonl w sessionId = Some jsonlPath \<and>
      bindE (get_prop meta (lit ''project_path'')) ToString = Inl e \<longrightarrow>
      processSession w file sessionId db = (db, Fatal e))"
proof -
  have e: "groupTurns [] = []" by (simp add: groupTurns_def)
  have single: "chunkSession [] =
     Inr [\<lparr> chunkIndex = 0, messages = [], chunkText = [], startTime = JStr [], endTime = JStr [],
        toolsUsed = [] \<rparr>]"
    by (simp add: chunkSession_def e makeChunk_def formatChunkText_def)
  have some: "chunkSession msgs \<noteq> Inr []"
  proof (cases "length (groupTurns msgs) \<le> CHUNK_SIZE")
    case True
    then show ?thesis by (auto simp: chunkSession_short bindE_Inr_iff)
  next
    case False
    then have long: "CHUNK_SIZE < length (groupTurns msgs)" by simp
    show ?thesis
    proof
      assume "chunkSession msgs = Inr []"
      then have "list_all2 (\<lambda>k c. makeChunk k
          (concat (take CHUNK_SIZE (drop (k * CHUNK_SIZE) (groupTurns msgs)))) = Inr c)
          [0 ..< (length (groupTurns msgs) + (CHUNK_SIZE - 1)) div CHUNK_SIZE] []"
        unfolding chunkSession_long [OF long] mapE_Inr_iff .
      then have "(length (groupTurns msgs) + (CHUNK_SIZE - 1)) div CHUNK_SIZE = 0" by simp
      with long show False by (simp add: CHUNK_SIZE_def)
    qed
  qed
  have skip: "processSession w file sessionId db = (db, Skipped)"
    if "fs_readFile w (path_join w [SESSION_META_DIR w, file]) = Inr raw \<and>
      JSON_parse_of w raw = Some meta \<and>
      findSessionJsonl w sessionId = Some jsonlPath \<and>
      bindE (get_prop meta (lit ''project_path'')) ToString = Inr projectText \<and>
      fs_readFile w jsonlPath = Inr jsonlContent \<and>
      parseSessionJsonl (JSON_parse_of w) jsonlContent = Inr []"
    for raw meta jsonlPath projectText jsonlContent
    using that by (simp add: processSession_def)
  have stop: "processSession w file sessionId db = (db, Fatal e)"
    if "fs_readFile w (path_join w [SESSION_META_DIR w, file]) = Inr raw \<and>
      JSON_parse_of w raw = Some meta \<and>
      findSessionJsonl w sessionId = Some jsonlPath \<and>
      bindE (get_prop meta (lit ''project_path'')) ToString = Inl e"
    for raw meta jsonlPath e
    using that by (simp add: processSession_def)
  from single some skip stop show ?thesis by blast
qed

theorem chunkSession_never_empty_witness:
  "chunkSession [userMsg, assistantMsg] \<noteq> Inr [] \<and>
   parseSessionJsonl (JSON_parse_of emptyLogs) (lit ''{}'') = Inr [] \<and>
   processSession emptyLogs (lit ''a.json'') (lit ''a'') [] = ([], Skipped) \<and>
   processSession oddMeta (lit ''a.json'') (lit ''a'') [] = ([], Fatal TypeError)"
proof -
  have fields: "fs_readFile emptyLogs = (\<lambda>p. Inr (lit ''{}''))"
    "JSON_parse_of emptyLogs = (\<lambda>s. if s = lit ''{}'' then Some (JObj []) else None)"
    "fs_readdir emptyLogs = (\<lambda>dir. Inr [lit ''a.json''])"
    "fs_access emptyLogs = (\<lambda>p. True)"
    by (simp_all add: emptyLogs_def twoSessions_def)
  have sp: "splitLines (lit ''{}'') = [lit ''{}'']"
    by (simp add: splitLines_def lit_def)
  have tr: "js_trim (lit ''{}'') \<noteq> []"
    by (simp add: js_trim_def js_whitespace_def lit_def)
  have entry: "parseEntry (JObj []) = Inr None"
    by (simp add: parseEntry_def)
  have none: "parseSessionJsonl (JSON_parse_of emptyLogs) (lit ''{}'') = Inr []"
    unfolding parseSessionJsonl_def sp
    by (simp add: parseLine_def tr fields entry)
  have log: "findSessionJsonl emptyLogs (lit ''a'') =
      Some (path_join emptyLogs [PROJECTS_DIR emptyLogs, lit ''a.json'', lit ''a'' @ lit ''.jsonl''])"
    by (simp add: findSessionJsonl_def fields)
  have pre: "fs_readFile emptyLogs (path_join emptyLogs [SESSION_META_DIR emptyLogs, lit ''a.json''])
        = Inr (lit ''{}'') \<and>
      JSON_parse_of emptyLogs (lit ''{}'') = Some (JObj []) \<and>
      findSessionJsonl emptyLogs (lit ''a'') =
        Some (path_join emptyLogs [PROJECTS_DIR emptyLogs, lit ''a.json'', lit ''a'' @ lit ''.jsonl'']) \<and>
      bindE (get_prop (JObj []) (lit ''project_path'')) ToString = Inr (lit ''undefined'') \<and>
      fs_readFile emptyLogs
        (path_join emptyLogs [PROJECTS_DIR emptyLogs, lit ''a.json'', lit ''a'' @ lit ''.jsonl''])
        = Inr (lit ''{}'') \<and>
      parseSessionJsonl (JSON_parse_of emptyLogs) (lit ''{}'') = Inr []"
    using none log by (simp add: fields)
  note T = chunkSession_never_empty [of "[userMsg, assistantMsg]" emptyLogs "lit ''a.json''"
      "lit ''a''" "[]"]
  from T have a: "chunkSession [userMsg, assistantMsg] \<noteq> Inr []" by blast
  note c = T [THEN conjunct2, THEN conjunct2, THEN conjunct1, rule_format, OF pre]
  have oddFields: "fs_readFile oddMeta = (\<lambda>p. Inr oddMetaText)"
    "JSON_parse_of oddMeta oddMetaText =
       Some (JObj [(lit ''project_path'', JObj [(lit ''toString'', JNum (lit ''1''))])])"
    "fs_readdir oddMeta = (\<lambda>dir. Inr [lit ''a.json''])"
    "fs_access oddMeta = (\<lambda>p. True)"
    by (simp_all add: oddMeta_def emptyLogs_def twoSessions_def)
  have oddLog: "findSessionJsonl oddMeta (lit ''a'') =
      Some (path_join oddMeta [PROJECTS_DIR oddMeta, lit ''a.json'', lit ''a'' @ lit ''.jsonl''])"
    by (simp add: findSessionJsonl_def oddFields)
  have oddPath: "bindE (get_prop (JObj [(lit ''project_path'', JObj [(lit ''toString'', JNum (lit ''1''))])])
        (lit ''project_path'')) ToString = Inl TypeError"
    by (simp add: lit_def)
  have oddPre: "fs_readFile oddMeta (path_join oddMeta [SESSION_META_DIR oddMeta, lit ''a.json''])
        = Inr oddMetaText \<and>
      JSON_parse_of oddMeta oddMetaText =
        Some (JObj [(lit ''project_path'', JObj [(lit ''toString'', JNum (lit ''1''))])]) \<and>
      findSessionJsonl oddMeta (lit ''a'') =
        Some (path_join oddMeta [PROJECTS_DIR oddMeta, lit ''a.json'', lit ''a'' @ lit ''.jsonl'']) \<and>
      bindE (get_prop (JObj [(lit ''project_path'', JObj [(lit ''toString'', JNum (lit ''1''))])])
        (lit ''project_path'')) ToString = Inl TypeError"
    using oddLog oddPath by (simp only: oddFields simp_thms)
  note d = chunkSession_never_empty [of "[]" oddMeta "lit ''a.json''" "lit ''a''" "[]",
      THEN conjunct2, THEN conjunct2, THEN conjunct2, rule_format, OF oddPre]
  from a c d none show ?thesis by simp
qed

section \<open>The similarity search\<close>

subsection \<open>The row count of the query\<close>








subsection \<open>Selection of the nearest rows\<close>





subsection \<open>The sample table\<close>












end
